theory Spec2Isabelle
  imports Main "HOL-Library.AList"
begin

section \<open>Option records\<close>

text \<open>
  The toast widget of \<^verbatim>\<open>src/index.ts\<close>. The TypeScript unions \<^verbatim>\<open>ToastType\<close> and
  \<^verbatim>\<open>Position\<close> are datatypes.
\<close>

datatype ToastType = Info | Success | Error | Warning

datatype Position = TopRight | TopLeft | BottomRight | BottomLeft | TopCenter | BottomCenter

text \<open>
  A property of a JavaScript options object is in one of three conditions, and
  \<^verbatim>\<open>Object.assign\<close> and the object spread tell them apart: the object has no such own
  property (\<open>Missing\<close>), it has the property and the property holds \<^verbatim>\<open>undefined\<close>
  (\<open>Undefined\<close>; \<^verbatim>\<open>{duration: undefined}\<close> type-checks against \<^verbatim>\<open>duration?: number\<close>), or
  it holds a value.
\<close>

datatype 'a field = Missing | Undefined | Val 'a

text \<open>
  Caller-supplied functions are outside the source. A close callback is an opaque name
  (\<open>User n\<close>) or the no-op of \<^verbatim>\<open>DEFAULTS\<close>; the model logs each invocation. A renderer is
  a function of the four values it is given; it returns markup, a pre-built element
  (an opaque handle, assumed not to be an element of this library), or throws.
\<close>

datatype callback = Noop | User nat

datatype render_out = Markup string | Element nat | Throws

type_synonym renderer = "string \<Rightarrow> string field \<Rightarrow> string field \<Rightarrow> ToastType field \<Rightarrow> render_out"

text \<open>
  \<^verbatim>\<open>NotifyOptions\<close>; the same record type serves for \<^verbatim>\<open>Partial<NotifyOptions>\<close> and for
  \<^verbatim>\<open>Required<NotifyOptions>\<close>, which differ only in what the type checker promises.
  \<^verbatim>\<open>duration\<close> is a number of milliseconds, modelled as an integer. The \<^verbatim>\<open>render\<close> field
  holds a renderer or \<^verbatim>\<open>null\<close> (\<open>Val None\<close>).
\<close>

record NotifyOptions =
  id_opt :: "string field"
  title :: "string field"
  message :: "string field"
  type_opt :: "ToastType field"
  duration :: "int field"
  closable :: "bool field"
  pauseOnHover :: "bool field"
  position :: "Position field"
  containerClass :: "string field"
  toastClass :: "string field"
  injectStyles :: "bool field"
  onClose :: "callback field"
  render :: "renderer option field"

definition DEFAULTS :: NotifyOptions where
  "DEFAULTS = \<lparr> id_opt = Val '''', title = Val '''', message = Val '''', type_opt = Val Info,
     duration = Val 4000, closable = Val True, pauseOnHover = Val True,
     position = Val TopRight, containerClass = Val '''', toastClass = Val '''',
     injectStyles = Val True, onClose = Val Noop, render = Val None \<rparr>"

text \<open>The empty object literal \<^verbatim>\<open>{}\<close>.\<close>

definition emptyOpts :: NotifyOptions where
  "emptyOpts = \<lparr> id_opt = Missing, title = Missing, message = Missing, type_opt = Missing,
     duration = Missing, closable = Missing, pauseOnHover = Missing, position = Missing,
     containerClass = Missing, toastClass = Missing, injectStyles = Missing,
     onClose = Missing, render = Missing \<rparr>"

text \<open>
  \<^verbatim>\<open>Object.assign(target, source)\<close> and the spread \<^verbatim>\<open>{...target, ...source}\<close> copy every own
  property of the source, also one that holds \<^verbatim>\<open>undefined\<close>.
\<close>

fun over :: "'a field \<Rightarrow> 'a field \<Rightarrow> 'a field" where
  "over a Missing = a"
| "over a Undefined = Undefined"
| "over a (Val v) = Val v"

definition assign :: "NotifyOptions \<Rightarrow> NotifyOptions \<Rightarrow> NotifyOptions" where
  "assign a b = \<lparr> id_opt = over (id_opt a) (id_opt b), title = over (title a) (title b),
     message = over (message a) (message b), type_opt = over (type_opt a) (type_opt b),
     duration = over (duration a) (duration b), closable = over (closable a) (closable b),
     pauseOnHover = over (pauseOnHover a) (pauseOnHover b),
     position = over (position a) (position b),
     containerClass = over (containerClass a) (containerClass b),
     toastClass = over (toastClass a) (toastClass b),
     injectStyles = over (injectStyles a) (injectStyles b),
     onClose = over (onClose a) (onClose b), render = over (render a) (render b) \<rparr>"

text \<open>Truthiness of a string and of a boolean property; \<^verbatim>\<open>undefined\<close> and \<^verbatim>\<open>""\<close> are falsy.\<close>

fun truthyS :: "string field \<Rightarrow> bool" where
  "truthyS (Val s) = (s \<noteq> [])"
| "truthyS _ = False"

fun truthyB :: "bool field \<Rightarrow> bool" where
  "truthyB (Val b) = b"
| "truthyB _ = False"

text \<open>String conversion inside template literals and concatenations.\<close>

fun typeStr :: "ToastType field \<Rightarrow> string" where
  "typeStr (Val Info) = ''info''"
| "typeStr (Val Success) = ''success''"
| "typeStr (Val Error) = ''error''"
| "typeStr (Val Warning) = ''warning''"
| "typeStr _ = ''undefined''"

fun positionStr :: "Position field \<Rightarrow> string" where
  "positionStr (Val TopRight) = ''top-right''"
| "positionStr (Val TopLeft) = ''top-left''"
| "positionStr (Val BottomRight) = ''bottom-right''"
| "positionStr (Val BottomLeft) = ''bottom-left''"
| "positionStr (Val TopCenter) = ''top-center''"
| "positionStr (Val BottomCenter) = ''bottom-center''"
| "positionStr _ = ''undefined''"

text \<open>
  The first argument of \<^verbatim>\<open>notify\<close> is a bare string or an options object; the second
  is optional. Line 206:
  \<^verbatim>\<open>typeof messageOrOpts === "string" ? { message: messageOrOpts, ...(maybeOpts || {}) } : messageOrOpts\<close>.
\<close>

datatype first_arg = Str string | Opts NotifyOptions

fun optsBase :: "first_arg \<Rightarrow> NotifyOptions option \<Rightarrow> NotifyOptions" where
  "optsBase (Str m) None = assign (emptyOpts\<lparr>message := Val m\<rparr>) emptyOpts"
| "optsBase (Str m) (Some maybeOpts) = assign (emptyOpts\<lparr>message := Val m\<rparr>) maybeOpts"
| "optsBase (Opts o1) _ = o1"

text \<open>Line 207: \<^verbatim>\<open>Object.assign({}, DEFAULTS, globalConfig, optsBase)\<close>.\<close>

definition merged :: "NotifyOptions \<Rightarrow> NotifyOptions \<Rightarrow> NotifyOptions" where
  "merged cfg base = assign (assign (assign emptyOpts DEFAULTS) cfg) base"

section \<open>Identifiers\<close>

definition digit36 :: "nat \<Rightarrow> char" where
  "digit36 d = ''0123456789abcdefghijklmnopqrstuvwxyz'' ! d"

function toString36 :: "nat \<Rightarrow> string" where
  "toString36 n = (if n < 36 then [digit36 n] else toString36 (n div 36) @ [digit36 (n mod 36)])"
  by pat_completeness auto
termination
  by (relation "measure (\<lambda>n. n)") auto

text \<open>
  \<^verbatim>\<open>makeId\<close>: the clock in base 36 and six characters of \<^verbatim>\<open>Math.random()\<close>, which the
  environment supplies (\<open>rnd\<close>).
\<close>

definition makeId :: "nat \<Rightarrow> string \<Rightarrow> string" where
  "makeId clock rnd = ''t_'' @ toString36 clock @ ''_'' @ rnd"

text \<open>
  Lines 207 and 208: the merge, then \<^verbatim>\<open>if (!opts.id) opts.id = makeId()\<close>. The result is
  the record the call goes on with and stores in the instance.
\<close>

definition resolveOpts :: "NotifyOptions \<Rightarrow> nat \<Rightarrow> string \<Rightarrow> NotifyOptions \<Rightarrow> NotifyOptions" where
  "resolveOpts cfg clock rnd base =
     (let o0 = merged cfg base
      in if \<not> truthyS (id_opt o0) then o0\<lparr> id_opt := Val (makeId clock rnd) \<rparr> else o0)"

text \<open>Reading \<^verbatim>\<open>opts.id\<close> as a string; after line 208 the property holds a non-empty one.\<close>

fun idStr :: "string field \<Rightarrow> string" where
  "idStr (Val s) = s"
| "idStr _ = []"

section \<open>The page: elements, instances, timers\<close>

text \<open>
  The root element \<^verbatim>\<open>buildToastElement\<close> creates. \<open>hide\<close> is the class
  \<^verbatim>\<open>talx-toast--hide\<close>, \<open>parentElement\<close> the container the element is attached to (a
  container's children are the elements whose parent it is), \<open>closeBtn\<close> whether the
  close button was appended. \<open>hover\<close> is the page's own state of the element: whether
  the pointer is over it.
\<close>

datatype content_el = InnerHTML string | Prebuilt nat | DefaultContent "string option" "string option"

record element =
  tid :: string
  className :: string
  hide :: bool
  hover :: bool
  content :: content_el
  closeBtn :: bool
  parentElement :: "nat option"

text \<open>
  \<^verbatim>\<open>InternalToast\<close>. An instance is an object on the heap: closures and the registry
  share it by reference. \<open>remaining\<close> and \<open>start\<close> are the two variables the hover
  handlers of one \<^verbatim>\<open>notify\<close> call close over; \<open>remaining\<close> is \<open>None\<close> when it is not a
  number (\<^verbatim>\<open>undefined\<close>, \<^verbatim>\<open>NaN\<close>), which compares false with \<^verbatim>\<open>> 0\<close>.
\<close>

record InternalToast =
  id_int :: string
  el :: element
  timeoutId :: "nat option"
  opts :: NotifyOptions
  remaining :: "int option"
  start :: nat

text \<open>
  The deferred callbacks of the source. \<open>AutoDismiss r i\<close> is \<^verbatim>\<open>() => dismiss(i)\<close>
  created for instance \<open>r\<close> (lines 199 and 237; \<open>r\<close> only records whose closure it is),
  \<open>Removal r i\<close> the callback of lines 273 to 278, which closes over the instance and the
  identifier.
\<close>

datatype task = AutoDismiss nat string | Removal nat string

record timer =
  handle :: nat
  due :: nat
  task :: task

text \<open>
  The module's state and the part of the page it touches. \<open>TOASTS\<close> and \<open>CONTAINERS\<close> are
  JavaScript maps, kept in insertion order as association lists; a toast is registered by
  the reference of its instance, a container by the index of its element in \<open>body\<close>
  (the class names of the containers appended to \<^verbatim>\<open>document.body\<close>). \<open>heap\<close> holds the
  instances, allocated in order from \<open>nextRef\<close>. \<open>timers\<close> are the pending
  \<^verbatim>\<open>setTimeout\<close> callbacks, \<open>frames\<close> the pending \<^verbatim>\<open>requestAnimationFrame\<close> ones.
  \<open>closeLog\<close> lists the close callbacks invoked so far, oldest first.
\<close>

record state =
  browser :: bool
  now :: nat
  TOASTS :: "(string \<times> nat) list"
  CONTAINERS :: "(string \<times> nat) list"
  globalConfig :: NotifyOptions
  heap :: "nat \<Rightarrow> InternalToast"
  nextRef :: nat
  body :: "string list"
  styles :: bool
  timers :: "timer list"
  nextHandle :: nat
  frames :: "nat list"
  closeLog :: "callback list"

definition blankToast :: InternalToast where
  "blankToast = \<lparr> id_int = [], el = \<lparr> tid = [], className = [], hide = False, hover = False,
       content = DefaultContent None None, closeBtn = False, parentElement = None \<rparr>,
     timeoutId = None, opts = emptyOpts, remaining = None, start = 0 \<rparr>"

text \<open>
  The state when the module is loaded: empty maps, empty configuration, nothing
  scheduled. Timer handles are positive, as in a browser, so a stored handle is truthy.
\<close>

definition init :: "bool \<Rightarrow> state" where
  "init b = \<lparr> browser = b, now = 0, TOASTS = [], CONTAINERS = [], globalConfig = emptyOpts,
     heap = (\<lambda>_. blankToast), nextRef = 0, body = [], styles = False, timers = [],
     nextHandle = 1, frames = [], closeLog = [] \<rparr>"

definition isBrowser :: "state \<Rightarrow> bool" where
  "isBrowser s = browser s"

text \<open>
  The page takes the delay of \<^verbatim>\<open>setTimeout\<close> as a signed 32-bit integer (the type
  \<^verbatim>\<open>long\<close> of its interface): the number wraps modulo \<open>2^32\<close> into the range from
  \<open>-2^31\<close> to \<open>2^31 - 1\<close>, and a negative delay counts as 0. So a delay of \<open>2^31\<close> ms
  or a little more runs at once. Durations are whole milliseconds here.
\<close>

definition toInt32 :: "int \<Rightarrow> int" where
  "toInt32 d = (let m = d mod 2 ^ 32 in if m < 2 ^ 31 then m else m - 2 ^ 32)"

definition delayMs :: "int \<Rightarrow> nat" where
  "delayMs d = nat (max 0 (toInt32 d))"

text \<open>
  \<^verbatim>\<open>setTimeout(cb, delay)\<close>: a new handle, the callback due after the delay as the page
  takes it. \<^verbatim>\<open>clearTimeout(h)\<close> drops the pending callback of that handle, if any.
\<close>

definition setTimeout :: "task \<Rightarrow> int \<Rightarrow> state \<Rightarrow> nat \<times> state" where
  "setTimeout cb delay s = (nextHandle s,
     s\<lparr> timers := timers s @ [\<lparr> handle = nextHandle s, due = now s + delayMs delay, task = cb \<rparr>],
        nextHandle := nextHandle s + 1 \<rparr>)"

definition clearTimeout :: "nat option \<Rightarrow> state \<Rightarrow> state" where
  "clearTimeout h s = (case h of None \<Rightarrow> s
     | Some k \<Rightarrow> s\<lparr> timers := filter (\<lambda>t. handle t \<noteq> k) (timers s) \<rparr>)"

definition injectDefaultStyles :: "state \<Rightarrow> state" where
  "injectDefaultStyles s = (if \<not> isBrowser s then s else if styles s then s else s\<lparr> styles := True \<rparr>)"

section \<open>Containers\<close>

text \<open>
  Line 125: \<^verbatim>\<open>position + (containerClass ? `|${containerClass}` : "")\<close>. The parameter
  default \<^verbatim>\<open>containerClass = ""\<close> replaces \<^verbatim>\<open>undefined\<close>.
\<close>

fun classArg :: "string field \<Rightarrow> string" where
  "classArg (Val c) = c"
| "classArg _ = []"

definition containerKey :: "Position field \<Rightarrow> string \<Rightarrow> string" where
  "containerKey p c = positionStr p @ (if c \<noteq> [] then ''|'' @ c else [])"

definition containerFor :: "Position field \<Rightarrow> string field \<Rightarrow> state \<Rightarrow> nat option \<times> state" where
  "containerFor p cc s =
     (if \<not> isBrowser s then (None, s)
      else let c = classArg cc; key = containerKey p c in
        case map_of (CONTAINERS s) key of
          Some k \<Rightarrow> (Some k, s)
        | None \<Rightarrow> (Some (length (body s)),
            s\<lparr> body := body s @ [''talx-container talx-container--'' @ positionStr p
                    @ (if c \<noteq> [] then '' '' @ c else [])],
               CONTAINERS := AList.update key (length (body s)) (CONTAINERS s) \<rparr>))"

section \<open>Building, showing and removing a toast\<close>

fun lineOf :: "string field \<Rightarrow> string option" where
  "lineOf (Val t) = (if t \<noteq> [] then Some t else None)"
| "lineOf _ = None"

text \<open>\<^verbatim>\<open>buildToastElement\<close>; \<open>None\<close> when the renderer throws, which nothing catches.\<close>

definition buildToastElement :: "string \<Rightarrow> NotifyOptions \<Rightarrow> element option" where
  "buildToastElement i o1 =
     (let cls = ''talx-toast talx-toast--'' @ typeStr (type_opt o1)
            @ (if truthyS (toastClass o1) then '' '' @ classArg (toastClass o1) else []);
          mk = (\<lambda>c. Some \<lparr> tid = i, className = cls, hide = False, hover = False, content = c,
                   closeBtn = truthyB (closable o1), parentElement = None \<rparr>)
      in case render o1 of
        Val (Some f) \<Rightarrow> (case f i (title o1) (message o1) (type_opt o1) of
            Markup m \<Rightarrow> mk (InnerHTML m)
          | Element e \<Rightarrow> mk (Prebuilt e)
          | Throws \<Rightarrow> None)
      | _ \<Rightarrow> mk (DefaultContent (lineOf (title o1)) (lineOf (message o1))))"

definition setTimeoutId :: "nat \<Rightarrow> nat \<Rightarrow> state \<Rightarrow> state" where
  "setTimeoutId r h s = s\<lparr> heap := (heap s)(r := (heap s r)\<lparr> timeoutId := Some h \<rparr>) \<rparr>"

text \<open>The delay \<^verbatim>\<open>setTimeout\<close> reads from a duration: \<^verbatim>\<open>undefined\<close> counts as 0.\<close>

fun delayOf :: "int field \<Rightarrow> int" where
  "delayOf (Val d) = d"
| "delayOf _ = 0"

definition setAutoDismiss :: "nat \<Rightarrow> state \<Rightarrow> state" where
  "setAutoDismiss r s =
     (if duration (opts (heap s r)) = Val 0 then s
      else let s1 = clearTimeout (timeoutId (heap s r)) s;
               (h, s2) = setTimeout (AutoDismiss r (id_int (heap s1 r))) (delayOf (duration (opts (heap s1 r)))) s1
           in setTimeoutId r h s2)"

text \<open>
  \<^verbatim>\<open>dismiss\<close>: the registered instance gets the hide class, the timer whose handle it
  holds is cleared, and the removal is scheduled 220 ms ahead. The registry is not
  touched here.
\<close>

definition dismiss :: "string \<Rightarrow> state \<Rightarrow> state" where
  "dismiss i s =
     (if \<not> isBrowser s then s
      else case map_of (TOASTS s) i of
        None \<Rightarrow> s
      | Some r \<Rightarrow>
          let s1 = s\<lparr> heap := (heap s)(r := (heap s r)\<lparr> el := (el (heap s r))\<lparr> hide := True \<rparr> \<rparr>) \<rparr>;
              s2 = clearTimeout (timeoutId (heap s1 r)) s1
          in snd (setTimeout (Removal r i) 220 s2))"

text \<open>
  The removal callback (lines 274 to 277): detach the element if it has a parent, delete
  the registry entry of the identifier, invoke the close callback if there is one.
\<close>

definition removal :: "nat \<Rightarrow> string \<Rightarrow> state \<Rightarrow> state" where
  "removal r i s =
     (let s1 = s\<lparr> heap := (heap s)(r := (heap s r)\<lparr> el := (el (heap s r))\<lparr> parentElement := None \<rparr> \<rparr>) \<rparr>;
          s2 = s1\<lparr> TOASTS := AList.delete i (TOASTS s1) \<rparr>
      in case onClose (opts (heap s2 r)) of
           Val cb \<Rightarrow> s2\<lparr> closeLog := closeLog s2 @ [cb] \<rparr>
         | _ \<Rightarrow> s2)"

text \<open>The two hover handlers \<^verbatim>\<open>notify\<close> registers on the element (lines 228 to 239).\<close>

definition mouseenter :: "nat \<Rightarrow> state \<Rightarrow> state" where
  "mouseenter r s =
     (case timeoutId (heap s r) of
        None \<Rightarrow> s
      | Some h \<Rightarrow>
          let s1 = clearTimeout (Some h) s
          in s1\<lparr> heap := (heap s1)(r := (heap s1 r)\<lparr> remaining :=
               (case remaining (heap s1 r) of
                  Some m \<Rightarrow> Some (max 0 (m - (int (now s1) - int (start (heap s1 r)))))
                | None \<Rightarrow> None) \<rparr>) \<rparr>)"

definition mouseleave :: "nat \<Rightarrow> state \<Rightarrow> state" where
  "mouseleave r s =
     (case remaining (heap s r) of
        None \<Rightarrow> s
      | Some m \<Rightarrow>
          if m > 0 then
            let s1 = s\<lparr> heap := (heap s)(r := (heap s r)\<lparr> start := now s \<rparr>) \<rparr>;
                (h, s2) = setTimeout (AutoDismiss r (id_int (heap s1 r))) m s1
            in setTimeoutId r h s2
          else s)"

section \<open>The public operations\<close>

text \<open>A call returns, or the exception of a renderer passes through it.\<close>

datatype 'a outcome = Returned 'a | Thrown

text \<open>
  \<^verbatim>\<open>notify\<close> (lines 202 to 244). The hover variables \<open>remaining\<close> and \<open>start\<close> exist only
  when \<^verbatim>\<open>pauseOnHover\<close> is truthy; the model sets them in either case and delivers
  hover events only to an element that has the listeners (see \<open>step\<close>).
\<close>

definition notify :: "first_arg \<Rightarrow> NotifyOptions option \<Rightarrow> string \<Rightarrow> state \<Rightarrow> string option outcome \<times> state" where
  "notify messageOrOpts maybeOpts rnd s =
     (if \<not> isBrowser s then (Returned None, s)
      else
        let o1 = resolveOpts (globalConfig s) (now s) rnd (optsBase messageOrOpts maybeOpts);
            i = idStr (id_opt o1);
            s1 = (if truthyB (injectStyles o1) then injectDefaultStyles s else s);
            (c, s2) = containerFor (position o1) (containerClass o1) s1
        in case c of
             None \<Rightarrow> (Returned None, s2)
           | Some k \<Rightarrow>
               (case buildToastElement i o1 of
                  None \<Rightarrow> (Thrown, s2)
                | Some e \<Rightarrow>
                    let r = nextRef s2;
                        internal = \<lparr> id_int = i, el = e\<lparr> parentElement := Some k \<rparr>, timeoutId = None,
                          opts = o1,
                          remaining = (case duration o1 of Val d \<Rightarrow> Some d | _ \<Rightarrow> None),
                          start = now s2 \<rparr>;
                        s3 = s2\<lparr> heap := (heap s2)(r := internal), nextRef := r + 1,
                               TOASTS := AList.update i r (TOASTS s2),
                               frames := frames s2 @ [r] \<rparr>
                    in (Returned (Some i), setAutoDismiss r s3)))"

definition success :: "first_arg \<Rightarrow> NotifyOptions option \<Rightarrow> string \<Rightarrow> state \<Rightarrow> string option outcome \<times> state" where
  "success msgOrOpts maybe rnd s =
     notify (Opts (assign (assign emptyOpts (optsBase msgOrOpts maybe)) (emptyOpts\<lparr> type_opt := Val Success \<rparr>))) None rnd s"

definition error :: "first_arg \<Rightarrow> NotifyOptions option \<Rightarrow> string \<Rightarrow> state \<Rightarrow> string option outcome \<times> state" where
  "error msgOrOpts maybe rnd s =
     notify (Opts (assign (assign emptyOpts (optsBase msgOrOpts maybe)) (emptyOpts\<lparr> type_opt := Val Error \<rparr>))) None rnd s"

definition info :: "first_arg \<Rightarrow> NotifyOptions option \<Rightarrow> string \<Rightarrow> state \<Rightarrow> string option outcome \<times> state" where
  "info msgOrOpts maybe rnd s =
     notify (Opts (assign (assign emptyOpts (optsBase msgOrOpts maybe)) (emptyOpts\<lparr> type_opt := Val Info \<rparr>))) None rnd s"

definition warning :: "first_arg \<Rightarrow> NotifyOptions option \<Rightarrow> string \<Rightarrow> state \<Rightarrow> string option outcome \<times> state" where
  "warning msgOrOpts maybe rnd s =
     notify (Opts (assign (assign emptyOpts (optsBase msgOrOpts maybe)) (emptyOpts\<lparr> type_opt := Val Warning \<rparr>))) None rnd s"

text \<open>\<^verbatim>\<open>clear\<close> takes a snapshot of the keys and dismisses each in insertion order.\<close>

definition clear :: "state \<Rightarrow> state" where
  "clear s = (if \<not> isBrowser s then s else fold dismiss (map fst (TOASTS s)) s)"

definition configure :: "NotifyOptions \<Rightarrow> state \<Rightarrow> state" where
  "configure options s = s\<lparr> globalConfig := assign (assign emptyOpts (globalConfig s)) options \<rparr>"

section \<open>Events\<close>

text \<open>
  What can happen to the module: a call of one of the eight public operations, or the page
  running something the module registered. \<open>Tick n\<close> lets \<open>n\<close> ms pass; \<open>Fire h\<close> runs
  the pending timer of handle \<open>h\<close> if it is due; \<open>Frame\<close> runs the pending animation-frame
  callbacks; \<open>ClickClose r\<close> is a click on the close button of instance \<open>r\<close>, if it has
  one. Timers may fire late and in any order once due, which covers the order of a browser.

  \<open>MouseEnter r\<close> and \<open>MouseLeave r\<close> are the pointer moving onto and off the element
  of instance \<open>r\<close>. The pointer is over an element or it is not, so the page delivers
  \<^verbatim>\<open>mouseenter\<close> only to an element the pointer is not over and \<^verbatim>\<open>mouseleave\<close> only to one
  it is over: for each element the two alternate, \<^verbatim>\<open>mouseenter\<close> first. The handlers run
  if \<^verbatim>\<open>notify\<close> registered them (line 225). Events a script dispatches by hand are not
  part of the model.
\<close>

datatype event =
    CallNotify first_arg "NotifyOptions option" string
  | CallSuccess first_arg "NotifyOptions option" string
  | CallError first_arg "NotifyOptions option" string
  | CallInfo first_arg "NotifyOptions option" string
  | CallWarning first_arg "NotifyOptions option" string
  | CallDismiss string
  | CallClear
  | CallConfigure NotifyOptions
  | Tick nat
  | Fire nat
  | Frame
  | MouseEnter nat
  | MouseLeave nat
  | ClickClose nat

fun runTask :: "task \<Rightarrow> state \<Rightarrow> state" where
  "runTask (AutoDismiss r i) s = dismiss i s"
| "runTask (Removal r i) s = removal r i s"

definition fire :: "nat \<Rightarrow> state \<Rightarrow> state" where
  "fire h s = (case find (\<lambda>t. handle t = h) (timers s) of
       None \<Rightarrow> s
     | Some t \<Rightarrow> if due t \<le> now s
         then runTask (task t) (s\<lparr> timers := filter (\<lambda>t. handle t \<noteq> h) (timers s) \<rparr>)
         else s)"

definition showFrame :: "nat \<Rightarrow> state \<Rightarrow> state" where
  "showFrame r s = s\<lparr> heap := (heap s)(r := (heap s r)\<lparr> el := (el (heap s r))\<lparr> hide := False \<rparr> \<rparr>) \<rparr>"

definition setHover :: "nat \<Rightarrow> bool \<Rightarrow> state \<Rightarrow> state" where
  "setHover r b s = s\<lparr> heap := (heap s)(r := (heap s r)\<lparr> el := (el (heap s r))\<lparr> hover := b \<rparr> \<rparr>) \<rparr>"

definition pointerEnter :: "nat \<Rightarrow> state \<Rightarrow> state" where
  "pointerEnter r s =
     (if truthyB (pauseOnHover (opts (heap s r))) then mouseenter r (setHover r True s)
      else setHover r True s)"

definition pointerLeave :: "nat \<Rightarrow> state \<Rightarrow> state" where
  "pointerLeave r s =
     (if truthyB (pauseOnHover (opts (heap s r))) then mouseleave r (setHover r False s)
      else setHover r False s)"

fun step :: "event \<Rightarrow> state \<Rightarrow> state" where
  "step (CallNotify a b rnd) s = snd (notify a b rnd s)"
| "step (CallSuccess a b rnd) s = snd (success a b rnd s)"
| "step (CallError a b rnd) s = snd (error a b rnd s)"
| "step (CallInfo a b rnd) s = snd (info a b rnd s)"
| "step (CallWarning a b rnd) s = snd (warning a b rnd s)"
| "step (CallDismiss i) s = dismiss i s"
| "step CallClear s = clear s"
| "step (CallConfigure options) s = configure options s"
| "step (Tick n) s = s\<lparr> now := now s + n \<rparr>"
| "step (Fire h) s = fire h s"
| "step Frame s = (fold showFrame (frames s) s)\<lparr> frames := [] \<rparr>"
| "step (MouseEnter r) s =
     (if r < nextRef s \<and> \<not> hover (el (heap s r)) then pointerEnter r s else s)"
| "step (MouseLeave r) s =
     (if r < nextRef s \<and> hover (el (heap s r)) then pointerLeave r s else s)"
| "step (ClickClose r) s =
     (if r < nextRef s \<and> closeBtn (el (heap s r)) then dismiss (tid (el (heap s r))) s else s)"

text \<open>A run handles the events of a list from left to right.\<close>

fun run :: "event list \<Rightarrow> state \<Rightarrow> state" where
  "run [] s = s"
| "run (e # es) s = run es (step e s)"

section \<open>Definitions used in the statements\<close>




text \<open>
  What the three copies of line 207 give for one property, as the code has it: the last
  layer that has the property wins, whatever it holds.
\<close>

definition overlaid :: "'a field \<Rightarrow> 'a field \<Rightarrow> 'a field \<Rightarrow> 'a field" where
  "overlaid call cfg dflt = (if call \<noteq> Missing then call else if cfg \<noteq> Missing then cfg else dflt)"

text \<open>Inputs of the examples: a toast with the explicit identifier \<open>a\<close> and a close callback.\<close>

definition toastA :: NotifyOptions where
  "toastA = emptyOpts\<lparr> id_opt := Val ''a'', onClose := Val (User 7) \<rparr>"

text \<open>The call \<^verbatim>\<open>notify({message: "x", duration: undefined})\<close>.\<close>

definition undefinedDuration :: NotifyOptions where
  "undefinedDuration = emptyOpts\<lparr> message := Val ''x'', duration := Undefined \<rparr>"

text \<open>A sticky toast under the same identifier, and one that lasts a second.\<close>

definition stickyA :: NotifyOptions where
  "stickyA = emptyOpts\<lparr> id_opt := Val ''a'', duration := Val 0 \<rparr>"


definition secondA :: NotifyOptions where
  "secondA = emptyOpts\<lparr> id_opt := Val ''a'', duration := Val 1000 \<rparr>"

text \<open>
  The options a call of \<^verbatim>\<open>notify\<close> resolves to in a state, whether its renderer throws
  on them, and whether the call goes through to showing a toast.
\<close>

definition callOpts :: "first_arg \<Rightarrow> NotifyOptions option \<Rightarrow> string \<Rightarrow> state \<Rightarrow> NotifyOptions" where
  "callOpts a b rnd s = resolveOpts (globalConfig s) (now s) rnd (optsBase a b)"

definition rendererThrows :: "NotifyOptions \<Rightarrow> bool" where
  "rendererThrows o1 = (case render o1 of
       Val (Some f) \<Rightarrow> f (idStr (id_opt o1)) (title o1) (message o1) (type_opt o1) = Throws
     | _ \<Rightarrow> False)"

definition showsToast :: "first_arg \<Rightarrow> NotifyOptions option \<Rightarrow> string \<Rightarrow> state \<Rightarrow> bool" where
  "showsToast a b rnd s = (browser s \<and> \<not> rendererThrows (callOpts a b rnd s))"

text \<open>The state of such a call after styles and container are in place (line 212).\<close>

definition placed :: "first_arg \<Rightarrow> NotifyOptions option \<Rightarrow> string \<Rightarrow> state \<Rightarrow> state" where
  "placed a b rnd s = snd (containerFor (position (callOpts a b rnd s)) (containerClass (callOpts a b rnd s))
      (if truthyB (injectStyles (callOpts a b rnd s)) then injectDefaultStyles s else s))"

text \<open>
  The five showing operations are one: each event that shows a toast is a call of
  \<^verbatim>\<open>notify\<close> with these arguments.
\<close>

fun notifyCall :: "event \<Rightarrow> (first_arg \<times> NotifyOptions option \<times> string) option" where
  "notifyCall (CallNotify a b rnd) = Some (a, b, rnd)"
| "notifyCall (CallSuccess a b rnd) =
     Some (Opts (assign (assign emptyOpts (optsBase a b)) (emptyOpts\<lparr> type_opt := Val Success \<rparr>)), None, rnd)"
| "notifyCall (CallError a b rnd) =
     Some (Opts (assign (assign emptyOpts (optsBase a b)) (emptyOpts\<lparr> type_opt := Val Error \<rparr>)), None, rnd)"
| "notifyCall (CallInfo a b rnd) =
     Some (Opts (assign (assign emptyOpts (optsBase a b)) (emptyOpts\<lparr> type_opt := Val Info \<rparr>)), None, rnd)"
| "notifyCall (CallWarning a b rnd) =
     Some (Opts (assign (assign emptyOpts (optsBase a b)) (emptyOpts\<lparr> type_opt := Val Warning \<rparr>)), None, rnd)"
| "notifyCall _ = None"

text \<open>The identifier a deferred callback dismisses or removes, and the instance it was made for.\<close>

fun target :: "task \<Rightarrow> string" where
  "target (AutoDismiss r i) = i"
| "target (Removal r i) = i"

fun owner :: "task \<Rightarrow> nat" where
  "owner (AutoDismiss r i) = r"
| "owner (Removal r i) = r"

text \<open>
  What no operation changes: the later state keeps the page kind, has at least the
  instances, timer handles and containers of the earlier one, and every instance keeps its
  identifier, its options, the identifier on its element and its close button.
\<close>

definition extends :: "state \<Rightarrow> state \<Rightarrow> bool" where
  "extends s s' = (browser s' = browser s \<and> nextRef s \<le> nextRef s' \<and> nextHandle s \<le> nextHandle s'
     \<and> (\<forall>k c. map_of (CONTAINERS s) k = Some c \<longrightarrow> map_of (CONTAINERS s') k = Some c)
     \<and> (\<forall>r. r < nextRef s \<longrightarrow> id_int (heap s' r) = id_int (heap s r) \<and> opts (heap s' r) = opts (heap s r)
           \<and> tid (el (heap s' r)) = tid (el (heap s r)) \<and> closeBtn (el (heap s' r)) = closeBtn (el (heap s r))))"

text \<open>
  The invariants of the module. The registry has one entry per key, and an entry leads to
  an allocated instance of that identifier; a pending callback was made for an allocated
  instance of the identifier it names, under a handle already given out; an element
  carries the identifier of its instance; the hover variable of an instance with a
  non-negative duration is a non-negative number.
\<close>

definition regInv :: "state \<Rightarrow> bool" where
  "regInv s = (distinct (map fst (TOASTS s))
     \<and> (\<forall>p \<in> set (TOASTS s). snd p < nextRef s \<and> id_int (heap s (snd p)) = fst p))"

definition okTimer :: "state \<Rightarrow> timer \<Rightarrow> bool" where
  "okTimer s t = (owner (task t) < nextRef s \<and> id_int (heap s (owner (task t))) = target (task t)
     \<and> handle t < nextHandle s)"

definition timerInv :: "state \<Rightarrow> bool" where
  "timerInv s = (\<forall>t \<in> set (timers s). okTimer s t)"

definition elInv :: "state \<Rightarrow> bool" where
  "elInv s = (\<forall>r. r < nextRef s \<longrightarrow> tid (el (heap s r)) = id_int (heap s r))"

definition hoverInv :: "state \<Rightarrow> bool" where
  "hoverInv s = (\<forall>r d. r < nextRef s \<longrightarrow> duration (opts (heap s r)) = Val d \<longrightarrow> 0 \<le> d
     \<longrightarrow> (\<exists>m. remaining (heap s r) = Some m \<and> 0 \<le> m))"

definition inv :: "state \<Rightarrow> bool" where
  "inv s = (regInv s \<and> timerInv s \<and> elInv s \<and> hoverInv s)"

text \<open>
  \<open>untimed r s\<close>: the instance \<open>r\<close> has duration 0, no time remaining and no timer
  handle, and no pending auto-dismiss callback was made for it.
\<close>

definition untimed :: "nat \<Rightarrow> state \<Rightarrow> bool" where
  "untimed r s = (r < nextRef s \<and> duration (opts (heap s r)) = Val 0 \<and> remaining (heap s r) = Some 0
     \<and> timeoutId (heap s r) = None \<and> (\<forall>t \<in> set (timers s). \<forall>j. task t \<noteq> AutoDismiss r j))"




section \<open>The delay of a timer\<close>



lemma delayMs_220 [simp]: "delayMs 220 = 220"
  by (simp add: delayMs_def toInt32_def)

lemma delayMs_0 [simp]: "delayMs 0 = 0"
  by (simp add: delayMs_def toInt32_def)

section \<open>Merging options\<close>

declare toString36.simps [simp del]

lemma over_Missing_left [simp]: "over Missing b = b"
  by (cases b) simp_all



lemma over_overlaid: "over (over d c) b = overlaid b c d"
  by (cases b; cases c) (simp_all add: overlaid_def)

lemma assign_emptyOpts_left [simp]: "assign emptyOpts a = a"
  by (simp add: assign_def emptyOpts_def)

lemma merged_fields:
  "id_opt (merged cfg base) = overlaid (id_opt base) (id_opt cfg) (id_opt DEFAULTS)"
  "title (merged cfg base) = overlaid (title base) (title cfg) (title DEFAULTS)"
  "message (merged cfg base) = overlaid (message base) (message cfg) (message DEFAULTS)"
  "type_opt (merged cfg base) = overlaid (type_opt base) (type_opt cfg) (type_opt DEFAULTS)"
  "duration (merged cfg base) = overlaid (duration base) (duration cfg) (duration DEFAULTS)"
  "closable (merged cfg base) = overlaid (closable base) (closable cfg) (closable DEFAULTS)"
  "pauseOnHover (merged cfg base) = overlaid (pauseOnHover base) (pauseOnHover cfg) (pauseOnHover DEFAULTS)"
  "position (merged cfg base) = overlaid (position base) (position cfg) (position DEFAULTS)"
  "containerClass (merged cfg base) = overlaid (containerClass base) (containerClass cfg) (containerClass DEFAULTS)"
  "toastClass (merged cfg base) = overlaid (toastClass base) (toastClass cfg) (toastClass DEFAULTS)"
  "injectStyles (merged cfg base) = overlaid (injectStyles base) (injectStyles cfg) (injectStyles DEFAULTS)"
  "onClose (merged cfg base) = overlaid (onClose base) (onClose cfg) (onClose DEFAULTS)"
  "render (merged cfg base) = overlaid (render base) (render cfg) (render DEFAULTS)"
  unfolding merged_def assign_emptyOpts_left
  by (simp_all add: assign_def over_overlaid)

lemma resolveOpts_fields:
  "title (resolveOpts cfg clock rnd base) = title (merged cfg base)"
  "message (resolveOpts cfg clock rnd base) = message (merged cfg base)"
  "type_opt (resolveOpts cfg clock rnd base) = type_opt (merged cfg base)"
  "duration (resolveOpts cfg clock rnd base) = duration (merged cfg base)"
  "closable (resolveOpts cfg clock rnd base) = closable (merged cfg base)"
  "pauseOnHover (resolveOpts cfg clock rnd base) = pauseOnHover (merged cfg base)"
  "position (resolveOpts cfg clock rnd base) = position (merged cfg base)"
  "containerClass (resolveOpts cfg clock rnd base) = containerClass (merged cfg base)"
  "toastClass (resolveOpts cfg clock rnd base) = toastClass (merged cfg base)"
  "injectStyles (resolveOpts cfg clock rnd base) = injectStyles (merged cfg base)"
  "onClose (resolveOpts cfg clock rnd base) = onClose (merged cfg base)"
  "render (resolveOpts cfg clock rnd base) = render (merged cfg base)"
  by (simp_all add: resolveOpts_def Let_def)

lemma makeId_nonempty: "makeId clock rnd \<noteq> []"
  by (simp add: makeId_def)

lemma resolveOpts_id:
  "id_opt (resolveOpts cfg clock rnd base) =
     Val (if truthyS (id_opt (merged cfg base)) then idStr (id_opt (merged cfg base)) else makeId clock rnd)"
  by (cases "id_opt (merged cfg base)") (simp_all add: resolveOpts_def Let_def)

lemma resolveOpts_id_nonempty: "idStr (id_opt (resolveOpts cfg clock rnd base)) \<noteq> []"
  by (cases "id_opt (merged cfg base)") (simp_all add: resolveOpts_id makeId_nonempty)

section \<open>What a call of notify leaves behind\<close>

lemma setAutoDismiss_opts [simp]: "opts (heap (setAutoDismiss r s) r') = opts (heap s r')"
  by (simp add: setAutoDismiss_def setTimeout_def clearTimeout_def setTimeoutId_def Let_def
      split: option.splits)


lemma injectDefaultStyles_frame [simp]:
  "browser (injectDefaultStyles s) = browser s"
  "now (injectDefaultStyles s) = now s"
  "TOASTS (injectDefaultStyles s) = TOASTS s"
  "CONTAINERS (injectDefaultStyles s) = CONTAINERS s"
  "globalConfig (injectDefaultStyles s) = globalConfig s"
  "heap (injectDefaultStyles s) = heap s"
  "nextRef (injectDefaultStyles s) = nextRef s"
  "body (injectDefaultStyles s) = body s"
  "timers (injectDefaultStyles s) = timers s"
  "nextHandle (injectDefaultStyles s) = nextHandle s"
  "frames (injectDefaultStyles s) = frames s"
  "closeLog (injectDefaultStyles s) = closeLog s"
  by (simp_all add: injectDefaultStyles_def)

lemma containerFor_frame [simp]:
  "browser (snd (containerFor p cc s)) = browser s"
  "now (snd (containerFor p cc s)) = now s"
  "TOASTS (snd (containerFor p cc s)) = TOASTS s"
  "globalConfig (snd (containerFor p cc s)) = globalConfig s"
  "heap (snd (containerFor p cc s)) = heap s"
  "nextRef (snd (containerFor p cc s)) = nextRef s"
  "styles (snd (containerFor p cc s)) = styles s"
  "timers (snd (containerFor p cc s)) = timers s"
  "nextHandle (snd (containerFor p cc s)) = nextHandle s"
  "frames (snd (containerFor p cc s)) = frames s"
  "closeLog (snd (containerFor p cc s)) = closeLog s"
  by (simp_all add: containerFor_def Let_def split: option.splits)

lemma containerFor_keeps:
  "map_of (CONTAINERS s) k = Some c \<Longrightarrow> map_of (CONTAINERS (snd (containerFor p cc s))) k = Some c"
proof (cases "isBrowser s \<and> map_of (CONTAINERS s) (containerKey p (classArg cc)) = None")
  case True
  then have "CONTAINERS (snd (containerFor p cc s))
      = AList.update (containerKey p (classArg cc)) (length (body s)) (CONTAINERS s)"
    by (simp add: containerFor_def Let_def)
  moreover assume "map_of (CONTAINERS s) k = Some c"
  ultimately show ?thesis using True by (auto simp: update_conv')
next
  case False
  then have "snd (containerFor p cc s) = s"
    by (auto simp: containerFor_def Let_def)
  moreover assume "map_of (CONTAINERS s) k = Some c"
  ultimately show ?thesis by simp
qed

lemma containerFor_registered:
  "browser s \<Longrightarrow> map_of (CONTAINERS (snd (containerFor p cc s))) (containerKey p (classArg cc))
     = fst (containerFor p cc s)"
  by (cases "map_of (CONTAINERS s) (containerKey p (classArg cc))")
    (simp_all add: containerFor_def isBrowser_def Let_def update_conv')

lemma containerFor_found:
  "browser s \<Longrightarrow> map_of (CONTAINERS s) (containerKey p (classArg cc)) = Some k
     \<Longrightarrow> fst (containerFor p cc s) = Some k"
  by (simp add: containerFor_def isBrowser_def Let_def)

lemma containerFor_Some:
  "browser s \<Longrightarrow> \<exists>k. fst (containerFor p cc s) = Some k"
  by (simp add: containerFor_def isBrowser_def Let_def split: option.splits)

lemma setAutoDismiss_frame [simp]:
  "browser (setAutoDismiss r s) = browser s"
  "now (setAutoDismiss r s) = now s"
  "TOASTS (setAutoDismiss r s) = TOASTS s"
  "CONTAINERS (setAutoDismiss r s) = CONTAINERS s"
  "globalConfig (setAutoDismiss r s) = globalConfig s"
  "nextRef (setAutoDismiss r s) = nextRef s"
  "body (setAutoDismiss r s) = body s"
  "styles (setAutoDismiss r s) = styles s"
  "frames (setAutoDismiss r s) = frames s"
  "closeLog (setAutoDismiss r s) = closeLog s"
  by (simp_all add: setAutoDismiss_def setTimeout_def clearTimeout_def setTimeoutId_def Let_def
      split: option.splits)

lemma setAutoDismiss_heap:
  "heap (setAutoDismiss r s) r' =
     (if r' = r \<and> duration (opts (heap s r)) \<noteq> Val 0
      then (heap s r)\<lparr> timeoutId := Some (nextHandle s) \<rparr> else heap s r')"
  by (simp add: setAutoDismiss_def setTimeout_def clearTimeout_def setTimeoutId_def Let_def
      split: option.splits)

lemma setAutoDismiss_timers_fresh:
  "timeoutId (heap s r) = None \<Longrightarrow> timers (setAutoDismiss r s) =
     (if duration (opts (heap s r)) = Val 0 then timers s
      else timers s @ [\<lparr> handle = nextHandle s,
             due = now s + delayMs (delayOf (duration (opts (heap s r)))),
             task = AutoDismiss r (id_int (heap s r)) \<rparr>])"
  by (simp add: setAutoDismiss_def setTimeout_def clearTimeout_def setTimeoutId_def Let_def)

lemma setAutoDismiss_nextHandle:
  "nextHandle (setAutoDismiss r s) =
     (if duration (opts (heap s r)) = Val 0 then nextHandle s else nextHandle s + 1)"
  by (simp add: setAutoDismiss_def setTimeout_def clearTimeout_def setTimeoutId_def Let_def
      split: option.splits)

lemma buildToastElement_None:
  "buildToastElement (idStr (id_opt o1)) o1 = None \<longleftrightarrow> rendererThrows o1"
  by (auto simp: buildToastElement_def rendererThrows_def Let_def
      split: field.splits option.splits render_out.splits)

lemma buildToastElement_Some:
  "buildToastElement i o1 = Some e \<Longrightarrow>
     tid e = i \<and> hide e = False \<and> closeBtn e = truthyB (closable o1) \<and> hover e = False"
  by (auto simp: buildToastElement_def Let_def
      split: field.splits option.splits render_out.splits)

lemma notify_not_browser: "\<not> browser s \<Longrightarrow> notify a b rnd s = (Returned None, s)"
  by (simp add: notify_def isBrowser_def)

lemma notify_thrown:
  "browser s \<Longrightarrow> rendererThrows (callOpts a b rnd s) \<Longrightarrow> notify a b rnd s = (Thrown, placed a b rnd s)"
  using containerFor_Some [of "if truthyB (injectStyles (callOpts a b rnd s)) then injectDefaultStyles s else s"
      "position (callOpts a b rnd s)" "containerClass (callOpts a b rnd s)"]
    buildToastElement_None [of "callOpts a b rnd s"]
  by (cases "truthyB (injectStyles (callOpts a b rnd s))")
    (auto simp: notify_def isBrowser_def Let_def callOpts_def placed_def split_beta)

lemma notify_shown:
  assumes "showsToast a b rnd s"
  shows "\<exists>k e. buildToastElement (idStr (id_opt (callOpts a b rnd s))) (callOpts a b rnd s) = Some e
     \<and> fst (containerFor (position (callOpts a b rnd s)) (containerClass (callOpts a b rnd s))
          (if truthyB (injectStyles (callOpts a b rnd s)) then injectDefaultStyles s else s)) = Some k
     \<and> notify a b rnd s = (Returned (Some (idStr (id_opt (callOpts a b rnd s)))),
        setAutoDismiss (nextRef s)
          ((placed a b rnd s)\<lparr> heap := (heap s)(nextRef s :=
               \<lparr> id_int = idStr (id_opt (callOpts a b rnd s)), el = e\<lparr> parentElement := Some k \<rparr>,
                 timeoutId = None, opts = callOpts a b rnd s,
                 remaining = (case duration (callOpts a b rnd s) of Val d \<Rightarrow> Some d | _ \<Rightarrow> None),
                 start = now s \<rparr>),
             nextRef := nextRef s + 1,
             TOASTS := AList.update (idStr (id_opt (callOpts a b rnd s))) (nextRef s) (TOASTS s),
             frames := frames s @ [nextRef s] \<rparr>))"
proof -
  let ?o = "callOpts a b rnd s"
  let ?s1 = "if truthyB (injectStyles ?o) then injectDefaultStyles s else s"
  from assms have br: "browser s" and nt: "\<not> rendererThrows ?o"
    by (simp_all add: showsToast_def)
  from br have "browser ?s1" by simp
  then obtain k where k: "fst (containerFor (position ?o) (containerClass ?o) ?s1) = Some k"
    using containerFor_Some by blast
  from nt obtain e where e: "buildToastElement (idStr (id_opt ?o)) ?o = Some e"
    using buildToastElement_None [of ?o] by (cases "buildToastElement (idStr (id_opt ?o)) ?o") auto
  have "notify a b rnd s = (Returned (Some (idStr (id_opt ?o))),
        setAutoDismiss (nextRef s)
          ((placed a b rnd s)\<lparr> heap := (heap s)(nextRef s :=
               \<lparr> id_int = idStr (id_opt ?o), el = e\<lparr> parentElement := Some k \<rparr>,
                 timeoutId = None, opts = ?o,
                 remaining = (case duration ?o of Val d \<Rightarrow> Some d | _ \<Rightarrow> None),
                 start = now s \<rparr>),
             nextRef := nextRef s + 1,
             TOASTS := AList.update (idStr (id_opt ?o)) (nextRef s) (TOASTS s),
             frames := frames s @ [nextRef s] \<rparr>))"
    using br k e
    by (cases "truthyB (injectStyles ?o)")
      (simp_all add: notify_def isBrowser_def Let_def callOpts_def [symmetric] placed_def split_beta)
  with e k show ?thesis by blast
qed

section \<open>The operations as state updates\<close>

lemma extends_refl [simp]: "extends s s"
  by (simp add: extends_def)

lemma extends_trans: "extends s s' \<Longrightarrow> extends s' s'' \<Longrightarrow> extends s s''"
  by (auto simp: extends_def)

lemma dismiss_noop: "\<not> browser s \<or> map_of (TOASTS s) i = None \<Longrightarrow> dismiss i s = s"
  by (auto simp: dismiss_def isBrowser_def)

lemma dismiss_Some:
  "browser s \<Longrightarrow> map_of (TOASTS s) i = Some r \<Longrightarrow> dismiss i s =
     s\<lparr> heap := (heap s)(r := (heap s r)\<lparr> el := (el (heap s r))\<lparr> hide := True \<rparr> \<rparr>),
        timers := filter (\<lambda>t. Some (handle t) \<noteq> timeoutId (heap s r)) (timers s)
           @ [\<lparr> handle = nextHandle s, due = now s + 220, task = Removal r i \<rparr>],
        nextHandle := nextHandle s + 1 \<rparr>"
  by (cases "timeoutId (heap s r)")
    (simp_all add: dismiss_def isBrowser_def Let_def clearTimeout_def setTimeout_def)

lemma removal_eq:
  "removal r i s = s\<lparr> heap := (heap s)(r := (heap s r)\<lparr> el := (el (heap s r))\<lparr> parentElement := None \<rparr> \<rparr>),
       TOASTS := AList.delete i (TOASTS s),
       closeLog := closeLog s @ (case onClose (opts (heap s r)) of Val cb \<Rightarrow> [cb] | _ \<Rightarrow> []) \<rparr>"
  by (cases "onClose (opts (heap s r))") (simp_all add: removal_def Let_def)

lemma mouseenter_None: "timeoutId (heap s r) = None \<Longrightarrow> mouseenter r s = s"
  by (simp add: mouseenter_def)

lemma mouseenter_Some:
  "timeoutId (heap s r) = Some h \<Longrightarrow> mouseenter r s =
     s\<lparr> timers := filter (\<lambda>t. handle t \<noteq> h) (timers s),
        heap := (heap s)(r := (heap s r)\<lparr> remaining :=
           (case remaining (heap s r) of
              Some m \<Rightarrow> Some (max 0 (m - (int (now s) - int (start (heap s r)))))
            | None \<Rightarrow> None) \<rparr>) \<rparr>"
  by (cases "remaining (heap s r)") (simp_all add: mouseenter_def clearTimeout_def Let_def)

lemma mouseleave_noop:
  "remaining (heap s r) = None \<or> (\<exists>m. remaining (heap s r) = Some m \<and> m \<le> 0) \<Longrightarrow> mouseleave r s = s"
  by (auto simp: mouseleave_def)

lemma mouseleave_pos:
  "remaining (heap s r) = Some m \<Longrightarrow> 0 < m \<Longrightarrow> mouseleave r s =
     s\<lparr> heap := (heap s)(r := (heap s r)\<lparr> start := now s, timeoutId := Some (nextHandle s) \<rparr>),
        timers := timers s @ [\<lparr> handle = nextHandle s, due = now s + delayMs m,
            task = AutoDismiss r (id_int (heap s r)) \<rparr>],
        nextHandle := nextHandle s + 1 \<rparr>"
  by (simp add: mouseleave_def setTimeout_def setTimeoutId_def Let_def)

lemma extends_dismiss: "extends s (dismiss i s)"
proof (cases "browser s \<and> map_of (TOASTS s) i \<noteq> None")
  case True
  then show ?thesis by (auto simp: dismiss_Some extends_def split: if_splits)
next
  case False
  then show ?thesis using dismiss_noop [of s i] by auto
qed

lemma extends_fold_dismiss: "extends s (fold dismiss js s)"
proof (induction js arbitrary: s)
  case Nil
  show ?case by simp
next
  case (Cons j js)
  show ?case using extends_trans [OF extends_dismiss Cons.IH] by simp
qed

lemma extends_clear: "extends s (clear s)"
  by (simp add: clear_def extends_fold_dismiss)

lemma extends_removal: "extends s (removal r i s)"
  by (simp add: removal_eq extends_def)

lemma extends_mouseenter: "extends s (mouseenter r s)"
  by (cases "timeoutId (heap s r)") (simp_all add: mouseenter_None mouseenter_Some extends_def)

lemma extends_mouseleave: "extends s (mouseleave r s)"
proof (cases "\<exists>m. remaining (heap s r) = Some m \<and> 0 < m")
  case True
  then show ?thesis by (auto simp: mouseleave_pos extends_def split: if_splits)
next
  case False
  then have "mouseleave r s = s"
    by (intro mouseleave_noop) (cases "remaining (heap s r)", auto simp: not_less)
  then show ?thesis by simp
qed

lemma setHover_frame [simp]:
  "browser (setHover r b s) = browser s"
  "now (setHover r b s) = now s"
  "TOASTS (setHover r b s) = TOASTS s"
  "CONTAINERS (setHover r b s) = CONTAINERS s"
  "globalConfig (setHover r b s) = globalConfig s"
  "nextRef (setHover r b s) = nextRef s"
  "timers (setHover r b s) = timers s"
  "nextHandle (setHover r b s) = nextHandle s"
  "frames (setHover r b s) = frames s"
  "closeLog (setHover r b s) = closeLog s"
  by (simp_all add: setHover_def)

lemma setHover_heap [simp]:
  "id_int (heap (setHover r b s) q) = id_int (heap s q)"
  "opts (heap (setHover r b s) q) = opts (heap s q)"
  "timeoutId (heap (setHover r b s) q) = timeoutId (heap s q)"
  "remaining (heap (setHover r b s) q) = remaining (heap s q)"
  "start (heap (setHover r b s) q) = start (heap s q)"
  "tid (el (heap (setHover r b s) q)) = tid (el (heap s q))"
  "hide (el (heap (setHover r b s) q)) = hide (el (heap s q))"
  "closeBtn (el (heap (setHover r b s) q)) = closeBtn (el (heap s q))"
  "parentElement (el (heap (setHover r b s) q)) = parentElement (el (heap s q))"
  "hover (el (heap (setHover r b s) q)) = (if q = r then b else hover (el (heap s q)))"
  by (simp_all add: setHover_def)

lemma extends_setHover: "extends s (setHover r b s)"
  by (simp add: extends_def)

lemma extends_pointerEnter: "extends s (pointerEnter r s)"
  using extends_trans [OF extends_setHover [of s r True] extends_mouseenter [of _ r]]
  by (simp add: pointerEnter_def extends_setHover)

lemma extends_pointerLeave: "extends s (pointerLeave r s)"
  using extends_trans [OF extends_setHover [of s r False] extends_mouseleave [of _ r]]
  by (simp add: pointerLeave_def extends_setHover)

lemma extends_showFrame: "extends s (showFrame r s)"
  by (simp add: showFrame_def extends_def)

lemma extends_fold_showFrame: "extends s (fold showFrame rs s)"
proof (induction rs arbitrary: s)
  case Nil
  show ?case by simp
next
  case (Cons r rs)
  show ?case using extends_trans [OF extends_showFrame Cons.IH] by simp
qed

lemma extends_fire: "extends s (fire h s)"
proof (cases "find (\<lambda>t. handle t = h) (timers s)")
  case None
  then show ?thesis by (simp add: fire_def)
next
  case (Some t)
  let ?s1 = "s\<lparr> timers := filter (\<lambda>t. handle t \<noteq> h) (timers s) \<rparr>"
  have a: "extends s ?s1" by (simp add: extends_def)
  have b: "extends ?s1 (runTask (task t) ?s1)"
    by (cases "task t") (simp_all add: extends_dismiss extends_removal)
  from Some extends_trans [OF a b] show ?thesis by (simp add: fire_def)
qed

lemma extends_placed: "extends s (placed a b rnd s)"
  by (simp add: placed_def extends_def containerFor_keeps)

lemma extends_notify: "extends s (snd (notify a b rnd s))"
proof (cases "showsToast a b rnd s")
  case True
  from notify_shown [OF True] obtain k e where
    n: "notify a b rnd s = (Returned (Some (idStr (id_opt (callOpts a b rnd s)))),
        setAutoDismiss (nextRef s)
          ((placed a b rnd s)\<lparr> heap := (heap s)(nextRef s :=
               \<lparr> id_int = idStr (id_opt (callOpts a b rnd s)), el = e\<lparr> parentElement := Some k \<rparr>,
                 timeoutId = None, opts = callOpts a b rnd s,
                 remaining = (case duration (callOpts a b rnd s) of Val d \<Rightarrow> Some d | _ \<Rightarrow> None),
                 start = now s \<rparr>),
             nextRef := nextRef s + 1,
             TOASTS := AList.update (idStr (id_opt (callOpts a b rnd s))) (nextRef s) (TOASTS s),
             frames := frames s @ [nextRef s] \<rparr>))"
    by blast
  show ?thesis
    unfolding n using extends_placed [of s a b rnd]
    by (simp add: extends_def setAutoDismiss_heap setAutoDismiss_nextHandle placed_def)
next
  case False
  then show ?thesis
    using notify_not_browser [of s a b rnd] notify_thrown [of s a b rnd] extends_placed [of s a b rnd]
    by (cases "browser s") (auto simp: showsToast_def)
qed

lemma step_notifyCall:
  "notifyCall e = Some (a, b, rnd) \<Longrightarrow> step e s = snd (notify a b rnd s)"
  by (cases e) (auto simp: success_def error_def info_def warning_def)

lemma extends_step: "extends s (step e s)"
proof (cases "notifyCall e")
  case (Some c)
  then show ?thesis
    using step_notifyCall [of e "fst c" "fst (snd c)" "snd (snd c)" s] extends_notify by simp
next
  case None
  then show ?thesis
  proof (cases e)
    case Frame
    have "extends (fold showFrame (frames s) s) ((fold showFrame (frames s) s)\<lparr> frames := [] \<rparr>)"
      by (simp add: extends_def)
    with extends_fold_showFrame [of s "frames s"] Frame show ?thesis
      by (auto intro: extends_trans)
  qed (simp_all add: extends_dismiss extends_clear extends_fire extends_pointerEnter extends_pointerLeave,
       simp_all add: extends_def configure_def)
qed

lemma extends_run: "extends s (run es s)"
proof (induction es arbitrary: s)
  case Nil
  show ?case by simp
next
  case (Cons e es)
  show ?case using extends_trans [OF extends_step Cons.IH] by simp
qed

section \<open>Invariants of the reachable states\<close>

lemma okTimer_extends: "extends s s' \<Longrightarrow> okTimer s t \<Longrightarrow> okTimer s' t"
  by (auto simp: okTimer_def extends_def)

lemma regInv_lookup: "regInv s \<Longrightarrow> map_of (TOASTS s) i = Some r \<Longrightarrow> r < nextRef s \<and> id_int (heap s r) = i"
  by (auto simp: regInv_def dest!: map_of_SomeD)

lemma regInv_frame: "regInv s \<Longrightarrow> extends s s' \<Longrightarrow> TOASTS s' = TOASTS s \<Longrightarrow> regInv s'"
  by (auto simp: regInv_def extends_def)

lemma elInv_frame: "elInv s \<Longrightarrow> extends s s' \<Longrightarrow> nextRef s' = nextRef s \<Longrightarrow> elInv s'"
  by (auto simp: elInv_def extends_def)

lemma hoverInv_frame:
  "hoverInv s \<Longrightarrow> extends s s' \<Longrightarrow> nextRef s' = nextRef s
     \<Longrightarrow> (\<And>r. r < nextRef s \<Longrightarrow> remaining (heap s' r) = remaining (heap s r)) \<Longrightarrow> hoverInv s'"
  by (auto simp: hoverInv_def extends_def)

lemma timerInv_frame:
  "timerInv s \<Longrightarrow> extends s s' \<Longrightarrow> set (timers s') \<subseteq> set (timers s) \<Longrightarrow> timerInv s'"
  using okTimer_extends by (auto simp: timerInv_def)

lemma inv_init: "inv (init b)"
  by (simp add: inv_def regInv_def timerInv_def elInv_def hoverInv_def init_def)

lemma inv_dismiss: assumes "inv s" shows "inv (dismiss i s)"
proof (cases "browser s \<and> map_of (TOASTS s) i \<noteq> None")
  case False
  then show ?thesis using dismiss_noop [of s i] assms by auto
next
  case True
  then obtain r where r: "map_of (TOASTS s) i = Some r" and br: "browser s" by auto
  from assms r have rr: "r < nextRef s" "id_int (heap s r) = i"
    using regInv_lookup by (auto simp: inv_def)
  have e: "extends s (dismiss i s)" by (rule extends_dismiss)
  have 1: "regInv (dismiss i s)"
    using assms e by (auto intro!: regInv_frame [of s] simp: dismiss_Some [OF br r] inv_def)
  have 2: "timerInv (dismiss i s)"
    unfolding timerInv_def
  proof
    fix t assume "t \<in> set (timers (dismiss i s))"
    then have "t \<in> set (timers s) \<or> t = \<lparr> handle = nextHandle s, due = now s + 220, task = Removal r i \<rparr>"
      by (auto simp: dismiss_Some [OF br r])
    then show "okTimer (dismiss i s) t"
    proof
      assume "t \<in> set (timers s)"
      with assms have "okTimer s t" by (simp add: inv_def timerInv_def)
      then show ?thesis using okTimer_extends [OF e] by simp
    next
      assume "t = \<lparr> handle = nextHandle s, due = now s + 220, task = Removal r i \<rparr>"
      then show ?thesis using rr by (simp add: okTimer_def dismiss_Some [OF br r])
    qed
  qed
  have 3: "elInv (dismiss i s)"
    using assms e by (auto intro!: elInv_frame [of s] simp: dismiss_Some [OF br r] inv_def)
  have 4: "hoverInv (dismiss i s)"
    using assms e by (auto intro!: hoverInv_frame [of s] simp: dismiss_Some [OF br r] inv_def)
  from 1 2 3 4 show ?thesis by (simp add: inv_def)
qed

lemma inv_fold_dismiss: "inv s \<Longrightarrow> inv (fold dismiss js s)"
  by (induction js arbitrary: s) (simp_all add: inv_dismiss)

lemma inv_clear: "inv s \<Longrightarrow> inv (clear s)"
  by (simp add: clear_def inv_fold_dismiss)

lemma inv_removal: assumes "inv s" shows "inv (removal r i s)"
proof -
  have e: "extends s (removal r i s)" by (rule extends_removal)
  have d: "distinct (map fst (AList.delete i (TOASTS s)))"
    using assms by (simp add: inv_def regInv_def distinct_delete)
  have "\<forall>p \<in> set (AList.delete i (TOASTS s)). snd p < nextRef s \<and> id_int (heap s (snd p)) = fst p"
    using assms by (auto simp: inv_def regInv_def AList.delete_eq)
  with d e have 1: "regInv (removal r i s)"
    by (auto simp: regInv_def extends_def removal_eq)
  have 2: "timerInv (removal r i s)"
    using assms e by (auto intro!: timerInv_frame [of s] simp: removal_eq inv_def)
  have 3: "elInv (removal r i s)"
    using assms e by (auto intro!: elInv_frame [of s] simp: removal_eq inv_def)
  have 4: "hoverInv (removal r i s)"
    using assms e by (auto intro!: hoverInv_frame [of s] simp: removal_eq inv_def)
  from 1 2 3 4 show ?thesis by (simp add: inv_def)
qed


lemma inv_mouseenter: assumes "inv s" shows "inv (mouseenter r s)"
proof (cases "timeoutId (heap s r)")
  case None
  then show ?thesis using assms by (simp add: mouseenter_None)
next
  case (Some h)
  have e: "extends s (mouseenter r s)" by (rule extends_mouseenter)
  have 1: "regInv (mouseenter r s)"
    using assms e by (auto intro!: regInv_frame [of s] simp: mouseenter_Some [OF Some] inv_def)
  have 2: "timerInv (mouseenter r s)"
    using assms e by (auto intro!: timerInv_frame [of s] simp: mouseenter_Some [OF Some] inv_def)
  have 3: "elInv (mouseenter r s)"
    using assms e by (auto intro!: elInv_frame [of s] simp: mouseenter_Some [OF Some] inv_def)
  have 4: "hoverInv (mouseenter r s)"
    using assms unfolding inv_def hoverInv_def
    by (auto simp: mouseenter_Some [OF Some] split: option.splits)
  from 1 2 3 4 show ?thesis by (simp add: inv_def)
qed

lemma inv_mouseleave: assumes "inv s" and "r < nextRef s" shows "inv (mouseleave r s)"
proof (cases "\<exists>m. remaining (heap s r) = Some m \<and> 0 < m")
  case False
  then have "mouseleave r s = s"
    by (intro mouseleave_noop) (cases "remaining (heap s r)", auto simp: not_less)
  with assms show ?thesis by simp
next
  case True
  then obtain m where m: "remaining (heap s r) = Some m" "0 < m" by blast
  note eq = mouseleave_pos [OF m]
  have e: "extends s (mouseleave r s)" by (rule extends_mouseleave)
  have 1: "regInv (mouseleave r s)"
    using assms e by (auto intro!: regInv_frame [of s] simp: eq inv_def)
  have 2: "timerInv (mouseleave r s)"
    unfolding timerInv_def
  proof
    fix t assume "t \<in> set (timers (mouseleave r s))"
    then have "t \<in> set (timers s) \<or> t = \<lparr> handle = nextHandle s, due = now s + delayMs m,
            task = AutoDismiss r (id_int (heap s r)) \<rparr>"
      by (auto simp: eq)
    then show "okTimer (mouseleave r s) t"
    proof
      assume "t \<in> set (timers s)"
      with assms have "okTimer s t" by (simp add: inv_def timerInv_def)
      then show ?thesis using okTimer_extends [OF e] by simp
    next
      assume "t = \<lparr> handle = nextHandle s, due = now s + delayMs m,
            task = AutoDismiss r (id_int (heap s r)) \<rparr>"
      then show ?thesis using assms(2) by (simp add: okTimer_def eq)
    qed
  qed
  have 3: "elInv (mouseleave r s)"
    using assms e by (auto intro!: elInv_frame [of s] simp: eq inv_def)
  have 4: "hoverInv (mouseleave r s)"
    using assms e by (auto intro!: hoverInv_frame [of s] simp: eq inv_def)
  from 1 2 3 4 show ?thesis by (simp add: inv_def)
qed

lemma inv_showFrame: assumes "inv s" shows "inv (showFrame r s)"
proof -
  have e: "extends s (showFrame r s)" by (rule extends_showFrame)
  have 1: "regInv (showFrame r s)"
    using assms e by (auto intro!: regInv_frame [of s] simp: showFrame_def inv_def)
  have 2: "timerInv (showFrame r s)"
    using assms e by (auto intro!: timerInv_frame [of s] simp: showFrame_def inv_def)
  have 3: "elInv (showFrame r s)"
    using assms e by (auto intro!: elInv_frame [of s] simp: showFrame_def inv_def)
  have 4: "hoverInv (showFrame r s)"
    using assms e by (auto intro!: hoverInv_frame [of s] simp: showFrame_def inv_def)
  from 1 2 3 4 show ?thesis by (simp add: inv_def)
qed

lemma inv_fold_showFrame: "inv s \<Longrightarrow> inv (fold showFrame rs s)"
  by (induction rs arbitrary: s) (simp_all add: inv_showFrame)

text \<open>Changing a component no invariant reads, or dropping timers.\<close>

lemma inv_minor:
  assumes "inv s"
  shows "inv (s\<lparr> frames := fs \<rparr>)" and "inv (s\<lparr> now := n \<rparr>)" and "inv (s\<lparr> globalConfig := g \<rparr>)"
    and "inv (s\<lparr> timers := filter P (timers s) \<rparr>)"
  using assms by (auto simp: inv_def regInv_def timerInv_def okTimer_def elInv_def hoverInv_def)

lemma inv_fire: assumes "inv s" shows "inv (fire h s)"
proof (cases "find (\<lambda>t. handle t = h) (timers s)")
  case None
  then show ?thesis using assms by (simp add: fire_def)
next
  case (Some t)
  have "inv (s\<lparr> timers := filter (\<lambda>t. handle t \<noteq> h) (timers s) \<rparr>)"
    using assms by (rule inv_minor)
  then have "inv (runTask (task t) (s\<lparr> timers := filter (\<lambda>t. handle t \<noteq> h) (timers s) \<rparr>))"
    by (cases "task t") (simp_all add: inv_dismiss inv_removal)
  with Some assms show ?thesis by (simp add: fire_def)
qed

lemma inv_placed: assumes "inv s" shows "inv (placed a b rnd s)"
proof -
  have e: "extends s (placed a b rnd s)" by (rule extends_placed)
  have 1: "regInv (placed a b rnd s)"
    using assms e by (auto intro!: regInv_frame [of s] simp: placed_def inv_def)
  have 2: "timerInv (placed a b rnd s)"
    using assms e by (auto intro!: timerInv_frame [of s] simp: placed_def inv_def)
  have 3: "elInv (placed a b rnd s)"
    using assms e by (auto intro!: elInv_frame [of s] simp: placed_def inv_def)
  have 4: "hoverInv (placed a b rnd s)"
    using assms e by (auto intro!: hoverInv_frame [of s] simp: placed_def inv_def)
  from 1 2 3 4 show ?thesis by (simp add: inv_def)
qed

lemma placed_frame [simp]:
  "browser (placed a b rnd s) = browser s"
  "now (placed a b rnd s) = now s"
  "TOASTS (placed a b rnd s) = TOASTS s"
  "globalConfig (placed a b rnd s) = globalConfig s"
  "heap (placed a b rnd s) = heap s"
  "nextRef (placed a b rnd s) = nextRef s"
  "timers (placed a b rnd s) = timers s"
  "nextHandle (placed a b rnd s) = nextHandle s"
  "frames (placed a b rnd s) = frames s"
  "closeLog (placed a b rnd s) = closeLog s"
  by (simp_all add: placed_def)

lemma set_update_subset: "set (AList.update k v al) \<subseteq> insert (k, v) (set al)"
  by (induction al) auto


lemma notify_shown_proj:
  assumes "showsToast a b rnd s"
  shows "fst (notify a b rnd s) = Returned (Some (idStr (id_opt (callOpts a b rnd s))))"
    and "TOASTS (snd (notify a b rnd s))
          = AList.update (idStr (id_opt (callOpts a b rnd s))) (nextRef s) (TOASTS s)"
    and "nextRef (snd (notify a b rnd s)) = nextRef s + 1"
    and "r \<noteq> nextRef s \<Longrightarrow> heap (snd (notify a b rnd s)) r = heap s r"
    and "id_int (heap (snd (notify a b rnd s)) (nextRef s)) = idStr (id_opt (callOpts a b rnd s))"
    and "tid (el (heap (snd (notify a b rnd s)) (nextRef s))) = idStr (id_opt (callOpts a b rnd s))"
    and "opts (heap (snd (notify a b rnd s)) (nextRef s)) = callOpts a b rnd s"
    and "hide (el (heap (snd (notify a b rnd s)) (nextRef s))) = False"
    and "parentElement (el (heap (snd (notify a b rnd s)) (nextRef s))) \<noteq> None"
    and "parentElement (el (heap (snd (notify a b rnd s)) (nextRef s)))
          = fst (containerFor (position (callOpts a b rnd s)) (containerClass (callOpts a b rnd s))
              (if truthyB (injectStyles (callOpts a b rnd s)) then injectDefaultStyles s else s))"
    and "CONTAINERS (snd (notify a b rnd s)) = CONTAINERS (placed a b rnd s)"
    and "start (heap (snd (notify a b rnd s)) (nextRef s)) = now s"
    and "remaining (heap (snd (notify a b rnd s)) (nextRef s))
          = (case duration (callOpts a b rnd s) of Val d \<Rightarrow> Some d | _ \<Rightarrow> None)"
    and "timeoutId (heap (snd (notify a b rnd s)) (nextRef s))
          = (if duration (callOpts a b rnd s) = Val 0 then None else Some (nextHandle s))"
    and "timers (snd (notify a b rnd s))
          = (if duration (callOpts a b rnd s) = Val 0 then timers s
             else timers s @ [\<lparr> handle = nextHandle s,
               due = now s + delayMs (delayOf (duration (callOpts a b rnd s))),
               task = AutoDismiss (nextRef s) (idStr (id_opt (callOpts a b rnd s))) \<rparr>])"
    and "nextHandle (snd (notify a b rnd s))
          = (if duration (callOpts a b rnd s) = Val 0 then nextHandle s else nextHandle s + 1)"
    and "frames (snd (notify a b rnd s)) = frames s @ [nextRef s]"
    and "now (snd (notify a b rnd s)) = now s"
    and "globalConfig (snd (notify a b rnd s)) = globalConfig s"
    and "closeLog (snd (notify a b rnd s)) = closeLog s"
    and "hover (el (heap (snd (notify a b rnd s)) (nextRef s))) = False"
proof -
  from notify_shown [OF assms] obtain k e where
    e: "buildToastElement (idStr (id_opt (callOpts a b rnd s))) (callOpts a b rnd s) = Some e" and
    k: "fst (containerFor (position (callOpts a b rnd s)) (containerClass (callOpts a b rnd s))
          (if truthyB (injectStyles (callOpts a b rnd s)) then injectDefaultStyles s else s)) = Some k" and
    n: "notify a b rnd s = (Returned (Some (idStr (id_opt (callOpts a b rnd s)))),
        setAutoDismiss (nextRef s)
          ((placed a b rnd s)\<lparr> heap := (heap s)(nextRef s :=
               \<lparr> id_int = idStr (id_opt (callOpts a b rnd s)), el = e\<lparr> parentElement := Some k \<rparr>,
                 timeoutId = None, opts = callOpts a b rnd s,
                 remaining = (case duration (callOpts a b rnd s) of Val d \<Rightarrow> Some d | _ \<Rightarrow> None),
                 start = now s \<rparr>),
             nextRef := nextRef s + 1,
             TOASTS := AList.update (idStr (id_opt (callOpts a b rnd s))) (nextRef s) (TOASTS s),
             frames := frames s @ [nextRef s] \<rparr>))"
    by blast
  note b = buildToastElement_Some [OF e]
  show "fst (notify a b rnd s) = Returned (Some (idStr (id_opt (callOpts a b rnd s))))"
    by (simp add: n)
  show "TOASTS (snd (notify a b rnd s))
          = AList.update (idStr (id_opt (callOpts a b rnd s))) (nextRef s) (TOASTS s)"
    by (simp add: n)
  show "nextRef (snd (notify a b rnd s)) = nextRef s + 1"
    by (simp add: n)
  show "r \<noteq> nextRef s \<Longrightarrow> heap (snd (notify a b rnd s)) r = heap s r"
    by (simp add: n setAutoDismiss_heap)
  show "id_int (heap (snd (notify a b rnd s)) (nextRef s)) = idStr (id_opt (callOpts a b rnd s))"
    by (simp add: n setAutoDismiss_heap)
  show "tid (el (heap (snd (notify a b rnd s)) (nextRef s))) = idStr (id_opt (callOpts a b rnd s))"
    using b by (simp add: n setAutoDismiss_heap)
  show "opts (heap (snd (notify a b rnd s)) (nextRef s)) = callOpts a b rnd s"
    by (simp add: n)
  show "hide (el (heap (snd (notify a b rnd s)) (nextRef s))) = False"
    using b by (simp add: n setAutoDismiss_heap)
  show "parentElement (el (heap (snd (notify a b rnd s)) (nextRef s))) \<noteq> None"
    by (simp add: n setAutoDismiss_heap)
  show "parentElement (el (heap (snd (notify a b rnd s)) (nextRef s)))
          = fst (containerFor (position (callOpts a b rnd s)) (containerClass (callOpts a b rnd s))
              (if truthyB (injectStyles (callOpts a b rnd s)) then injectDefaultStyles s else s))"
    by (simp add: n k setAutoDismiss_heap)
  show "CONTAINERS (snd (notify a b rnd s)) = CONTAINERS (placed a b rnd s)"
    by (simp add: n)
  show "start (heap (snd (notify a b rnd s)) (nextRef s)) = now s"
    by (simp add: n setAutoDismiss_heap)
  show "remaining (heap (snd (notify a b rnd s)) (nextRef s))
          = (case duration (callOpts a b rnd s) of Val d \<Rightarrow> Some d | _ \<Rightarrow> None)"
    by (simp add: n setAutoDismiss_heap)
  show "timeoutId (heap (snd (notify a b rnd s)) (nextRef s))
          = (if duration (callOpts a b rnd s) = Val 0 then None else Some (nextHandle s))"
    by (simp add: n setAutoDismiss_heap)
  show "timers (snd (notify a b rnd s))
          = (if duration (callOpts a b rnd s) = Val 0 then timers s
             else timers s @ [\<lparr> handle = nextHandle s,
               due = now s + delayMs (delayOf (duration (callOpts a b rnd s))),
               task = AutoDismiss (nextRef s) (idStr (id_opt (callOpts a b rnd s))) \<rparr>])"
    by (simp add: n setAutoDismiss_timers_fresh)
  show "nextHandle (snd (notify a b rnd s))
          = (if duration (callOpts a b rnd s) = Val 0 then nextHandle s else nextHandle s + 1)"
    by (simp add: n setAutoDismiss_nextHandle)
  show "frames (snd (notify a b rnd s)) = frames s @ [nextRef s]"
    by (simp add: n)
  show "now (snd (notify a b rnd s)) = now s"
    by (simp add: n)
  show "globalConfig (snd (notify a b rnd s)) = globalConfig s"
    by (simp add: n)
  show "closeLog (snd (notify a b rnd s)) = closeLog s"
    by (simp add: n)
  show "hover (el (heap (snd (notify a b rnd s)) (nextRef s))) = False"
    using b by (simp add: n setAutoDismiss_heap)
qed

lemma notify_not_shown:
  "\<not> showsToast a b rnd s \<Longrightarrow> snd (notify a b rnd s) = s \<or> snd (notify a b rnd s) = placed a b rnd s"
  using notify_not_browser [of s a b rnd] notify_thrown [of s a b rnd]
  by (cases "browser s") (auto simp: showsToast_def)

lemma inv_notify: assumes "inv s" shows "inv (snd (notify a b rnd s))"
proof (cases "showsToast a b rnd s")
  case False
  then show ?thesis using notify_not_shown [OF False] assms inv_placed by auto
next
  case True
  note p = notify_shown_proj [OF True]
  let ?s' = "snd (notify a b rnd s)"
  let ?i = "idStr (id_opt (callOpts a b rnd s))"
  have e: "extends s ?s'" by (rule extends_notify)
  have old: "\<And>r. r < nextRef s \<Longrightarrow> heap ?s' r = heap s r"
    using p(4) by simp
  have 1: "regInv ?s'"
    unfolding regInv_def
  proof (intro conjI ballI)
    show "distinct (map fst (TOASTS ?s'))"
      using assms by (simp add: p(2) inv_def regInv_def distinct_update)
    fix q assume "q \<in> set (TOASTS ?s')"
    then have "q = (?i, nextRef s) \<or> q \<in> set (TOASTS s)"
      using set_update_subset [of ?i "nextRef s" "TOASTS s"] by (auto simp: p(2))
    then show "snd q < nextRef ?s'"
      using assms by (auto simp: p(3) inv_def regInv_def)
    from \<open>q = (?i, nextRef s) \<or> q \<in> set (TOASTS s)\<close> show "id_int (heap ?s' (snd q)) = fst q"
    proof
      assume "q = (?i, nextRef s)"
      then show ?thesis by (simp add: p(5))
    next
      assume q: "q \<in> set (TOASTS s)"
      with assms have "snd q < nextRef s" "id_int (heap s (snd q)) = fst q"
        by (auto simp: inv_def regInv_def)
      then show ?thesis using old by simp
    qed
  qed
  have 2: "timerInv ?s'"
    unfolding timerInv_def
  proof
    fix t assume "t \<in> set (timers ?s')"
    then have "t \<in> set (timers s) \<or> (duration (callOpts a b rnd s) \<noteq> Val 0 \<and> t = \<lparr> handle = nextHandle s,
               due = now s + delayMs (delayOf (duration (callOpts a b rnd s))),
               task = AutoDismiss (nextRef s) ?i \<rparr>)"
      by (auto simp: p(15) split: if_splits)
    then show "okTimer ?s' t"
    proof
      assume "t \<in> set (timers s)"
      with assms have "okTimer s t" by (simp add: inv_def timerInv_def)
      then show ?thesis using okTimer_extends [OF e] by simp
    next
      assume "duration (callOpts a b rnd s) \<noteq> Val 0 \<and> t = \<lparr> handle = nextHandle s,
               due = now s + delayMs (delayOf (duration (callOpts a b rnd s))),
               task = AutoDismiss (nextRef s) ?i \<rparr>"
      then show ?thesis by (simp add: okTimer_def p(3) p(5) p(16))
    qed
  qed
  have 3: "elInv ?s'"
    unfolding elInv_def
  proof (intro allI impI)
    fix r assume "r < nextRef ?s'"
    then have "r < nextRef s \<or> r = nextRef s" by (auto simp: p(3))
    then show "tid (el (heap ?s' r)) = id_int (heap ?s' r)"
      using assms old by (auto simp: p(5) p(6) inv_def elInv_def)
  qed
  have 4: "hoverInv ?s'"
    unfolding hoverInv_def
  proof (intro allI impI)
    fix r d assume "r < nextRef ?s'" and d: "duration (opts (heap ?s' r)) = Val d" "0 \<le> d"
    then have "r < nextRef s \<or> r = nextRef s" by (auto simp: p(3))
    then show "\<exists>m. remaining (heap ?s' r) = Some m \<and> 0 \<le> m"
    proof
      assume "r < nextRef s"
      then show ?thesis using assms old d by (auto simp: inv_def hoverInv_def)
    next
      assume "r = nextRef s"
      then show ?thesis using d by (simp add: p(7) p(13))
    qed
  qed
  from 1 2 3 4 show ?thesis by (simp add: inv_def)
qed

lemma inv_setHover: "inv s \<Longrightarrow> inv (setHover r b s)"
  by (simp add: inv_def regInv_def timerInv_def okTimer_def elInv_def hoverInv_def)

lemma inv_pointerEnter: "inv s \<Longrightarrow> inv (pointerEnter r s)"
  by (simp add: pointerEnter_def inv_setHover inv_mouseenter)

lemma inv_pointerLeave: "inv s \<Longrightarrow> r < nextRef s \<Longrightarrow> inv (pointerLeave r s)"
  by (simp add: pointerLeave_def inv_setHover inv_mouseleave)

lemma inv_step: assumes "inv s" shows "inv (step e s)"
proof (cases "notifyCall e")
  case (Some c)
  then show ?thesis
    using step_notifyCall [of e "fst c" "fst (snd c)" "snd (snd c)" s] inv_notify [OF assms] by simp
next
  case None
  then show ?thesis
    using assms
    by (cases e)
      (simp_all add: inv_dismiss inv_clear inv_fire inv_pointerEnter inv_pointerLeave inv_minor
        inv_fold_showFrame configure_def elInv_frame [OF _ extends_dismiss] extends_def)
qed

lemma inv_run: "inv s \<Longrightarrow> inv (run es s)"
  by (induction es arbitrary: s) (simp_all add: inv_step)

lemma inv_reachable: "inv (run es (init b))"
  by (simp add: inv_run inv_init)

lemma browser_run: "browser (run es s) = browser s"
  using extends_run [of s es] by (simp add: extends_def)

lemma one_entry_after_update:
  "distinct (map fst al) \<Longrightarrow> length (filter (\<lambda>p. fst p = k) (AList.update k v al)) = 1"
proof (induction al)
  case Nil
  show ?case by simp
next
  case (Cons p al)
  show ?case
  proof (cases "fst p = k")
    case True
    from Cons.prems have "fst p \<notin> fst ` set al" by simp
    with True have "\<forall>q \<in> set al. fst q \<noteq> k" by (metis imageI)
    then have "filter (\<lambda>p. fst p = k) al = []" by (simp add: filter_empty_conv)
    with True show ?thesis by simp
  next
    case False
    with Cons show ?thesis by simp
  qed
qed

section \<open>Container keys\<close>

lemma bar_notin_positionStr: "CHR ''|'' \<notin> set (positionStr p)"
proof (cases p)
  case (Val v)
  then show ?thesis by (cases v) simp_all
qed simp_all

lemma positionStr_inj:
  "p \<noteq> Missing \<Longrightarrow> p' \<noteq> Missing \<Longrightarrow> positionStr p = positionStr p' \<Longrightarrow> p = p'"
proof (cases p)
  case Missing
  assume "p \<noteq> Missing" with Missing show ?thesis by simp
next
  case Undefined
  assume "p' \<noteq> Missing" and "positionStr p = positionStr p'"
  with Undefined show ?thesis
  proof (cases p')
    case (Val v')
    assume "positionStr p = positionStr p'"
    with Undefined Val show ?thesis by (cases v') simp_all
  qed simp_all
next
  case (Val v)
  assume "p' \<noteq> Missing" and e: "positionStr p = positionStr p'"
  then show ?thesis
  proof (cases p')
    case Missing
    assume "p' \<noteq> Missing" with Missing show ?thesis by simp
  next
    case Undefined
    with Val e show ?thesis by (cases v) simp_all
  next
    case (Val v')
    with \<open>p = Val v\<close> e show ?thesis by (cases v; cases v') simp_all
  qed
qed

lemma split_at_bar:
  "CHR ''|'' \<notin> set xs \<Longrightarrow> CHR ''|'' \<notin> set ys \<Longrightarrow> xs @ CHR ''|'' # c = ys @ CHR ''|'' # c'
     \<Longrightarrow> xs = ys \<and> c = c'"
proof (induction xs arbitrary: ys)
  case Nil
  then show ?case by (cases ys) auto
next
  case (Cons x xs)
  then show ?case by (cases ys) auto
qed

lemma containerKey_inj:
  assumes "p \<noteq> Missing" and "p' \<noteq> Missing" and "containerKey p c = containerKey p' c'"
  shows "p = p' \<and> c = c'"
proof -
  have n: "CHR ''|'' \<notin> set (positionStr p)" "CHR ''|'' \<notin> set (positionStr p')"
    by (rule bar_notin_positionStr)+
  show ?thesis
  proof (cases "c = []")
    case True
    show ?thesis
    proof (cases "c' = []")
      case True
      with \<open>c = []\<close> assms positionStr_inj show ?thesis by (simp add: containerKey_def)
    next
      case False
      with True assms(3) have "positionStr p = positionStr p' @ CHR ''|'' # c'"
        by (simp add: containerKey_def)
      then have "CHR ''|'' \<in> set (positionStr p)" by simp
      with n show ?thesis by simp
    qed
  next
    case False
    show ?thesis
    proof (cases "c' = []")
      case True
      with False assms(3) have "positionStr p' = positionStr p @ CHR ''|'' # c"
        by (simp add: containerKey_def)
      then have "CHR ''|'' \<in> set (positionStr p')" by simp
      with n show ?thesis by simp
    next
      case c': False
      with False assms(3) have "positionStr p @ CHR ''|'' # c = positionStr p' @ CHR ''|'' # c'"
        by (simp add: containerKey_def)
      from split_at_bar [OF n this] assms positionStr_inj show ?thesis by blast
    qed
  qed
qed

lemma containers_run:
  "map_of (CONTAINERS s) k = Some c \<Longrightarrow> map_of (CONTAINERS (run es s)) k = Some c"
  using extends_run [of s es] by (simp add: extends_def)

lemma callOpts_fields:
  "title (callOpts a b rnd s) = overlaid (title (optsBase a b)) (title (globalConfig s)) (title DEFAULTS)"
  "message (callOpts a b rnd s) = overlaid (message (optsBase a b)) (message (globalConfig s)) (message DEFAULTS)"
  "type_opt (callOpts a b rnd s) = overlaid (type_opt (optsBase a b)) (type_opt (globalConfig s)) (type_opt DEFAULTS)"
  "duration (callOpts a b rnd s) = overlaid (duration (optsBase a b)) (duration (globalConfig s)) (duration DEFAULTS)"
  "closable (callOpts a b rnd s) = overlaid (closable (optsBase a b)) (closable (globalConfig s)) (closable DEFAULTS)"
  "pauseOnHover (callOpts a b rnd s) = overlaid (pauseOnHover (optsBase a b)) (pauseOnHover (globalConfig s)) (pauseOnHover DEFAULTS)"
  "position (callOpts a b rnd s) = overlaid (position (optsBase a b)) (position (globalConfig s)) (position DEFAULTS)"
  "containerClass (callOpts a b rnd s) = overlaid (containerClass (optsBase a b)) (containerClass (globalConfig s)) (containerClass DEFAULTS)"
  "toastClass (callOpts a b rnd s) = overlaid (toastClass (optsBase a b)) (toastClass (globalConfig s)) (toastClass DEFAULTS)"
  "injectStyles (callOpts a b rnd s) = overlaid (injectStyles (optsBase a b)) (injectStyles (globalConfig s)) (injectStyles DEFAULTS)"
  "onClose (callOpts a b rnd s) = overlaid (onClose (optsBase a b)) (onClose (globalConfig s)) (onClose DEFAULTS)"
  "render (callOpts a b rnd s) = overlaid (render (optsBase a b)) (render (globalConfig s)) (render DEFAULTS)"
  by (simp_all add: callOpts_def resolveOpts_fields merged_fields)

lemma no_renderer: "render o1 = Val None \<Longrightarrow> \<not> rendererThrows o1"
  by (simp add: rendererThrows_def)

text \<open>The examples run on a page with an empty configuration and no renderer.\<close>

lemma showsToast_plain:
  "browser s \<Longrightarrow> globalConfig s = emptyOpts \<Longrightarrow> render (optsBase a b) = Missing \<Longrightarrow> showsToast a b rnd s"
  by (simp add: showsToast_def no_renderer callOpts_fields overlaid_def emptyOpts_def DEFAULTS_def)

section \<open>A toast of duration 0\<close>

lemma untimed_dismiss: assumes "untimed r s" shows "untimed r (dismiss i s)"
proof (cases "browser s \<and> map_of (TOASTS s) i \<noteq> None")
  case False
  then show ?thesis using dismiss_noop [of s i] assms by auto
next
  case True
  then obtain r' where r': "map_of (TOASTS s) i = Some r'" and br: "browser s" by auto
  show ?thesis
    using assms by (auto simp: untimed_def dismiss_Some [OF br r'])
qed

lemma untimed_removal: "untimed r s \<Longrightarrow> untimed r (removal r' i s)"
  by (auto simp: untimed_def removal_eq)

lemma untimed_mouseenter: assumes "untimed r s" shows "untimed r (mouseenter r' s)"
proof (cases "timeoutId (heap s r')")
  case None
  then show ?thesis using assms by (simp add: mouseenter_None)
next
  case (Some h)
  with assms have "r' \<noteq> r" by (auto simp: untimed_def)
  with assms show ?thesis by (auto simp: untimed_def mouseenter_Some [OF Some])
qed

lemma untimed_mouseleave: assumes "untimed r s" shows "untimed r (mouseleave r' s)"
proof (cases "\<exists>m. remaining (heap s r') = Some m \<and> 0 < m")
  case False
  then have "mouseleave r' s = s"
    by (intro mouseleave_noop) (cases "remaining (heap s r')", auto simp: not_less)
  with assms show ?thesis by simp
next
  case True
  then obtain m where m: "remaining (heap s r') = Some m" "0 < m" by blast
  with assms have "r' \<noteq> r" by (auto simp: untimed_def)
  with assms show ?thesis by (auto simp: untimed_def mouseleave_pos [OF m])
qed

lemma untimed_setHover: "untimed r s \<Longrightarrow> untimed r (setHover r' b s)"
  by (simp add: untimed_def)

lemma untimed_pointerEnter: "untimed r s \<Longrightarrow> untimed r (pointerEnter r' s)"
  by (simp add: pointerEnter_def untimed_setHover untimed_mouseenter)

lemma untimed_pointerLeave: "untimed r s \<Longrightarrow> untimed r (pointerLeave r' s)"
  by (simp add: pointerLeave_def untimed_setHover untimed_mouseleave)

lemma untimed_showFrame: "untimed r s \<Longrightarrow> untimed r (showFrame r' s)"
  by (auto simp: untimed_def showFrame_def)

lemma untimed_fold_showFrame: "untimed r s \<Longrightarrow> untimed r (fold showFrame rs s)"
  by (induction rs arbitrary: s) (simp_all add: untimed_showFrame)

lemma untimed_fold_dismiss: "untimed r s \<Longrightarrow> untimed r (fold dismiss js s)"
  by (induction js arbitrary: s) (simp_all add: untimed_dismiss)

lemma untimed_minor:
  assumes "untimed r s"
  shows "untimed r (s\<lparr> frames := fs \<rparr>)" and "untimed r (s\<lparr> now := n \<rparr>)"
    and "untimed r (s\<lparr> globalConfig := g \<rparr>)"
    and "untimed r (s\<lparr> timers := filter P (timers s) \<rparr>)"
  using assms by (auto simp: untimed_def)

lemma untimed_fire: assumes "untimed r s" shows "untimed r (fire h s)"
proof (cases "find (\<lambda>t. handle t = h) (timers s)")
  case None
  then show ?thesis using assms by (simp add: fire_def)
next
  case (Some t)
  have "untimed r (s\<lparr> timers := filter (\<lambda>t. handle t \<noteq> h) (timers s) \<rparr>)"
    using assms by (rule untimed_minor)
  then have "untimed r (runTask (task t) (s\<lparr> timers := filter (\<lambda>t. handle t \<noteq> h) (timers s) \<rparr>))"
    by (cases "task t") (simp_all add: untimed_dismiss untimed_removal)
  with Some assms show ?thesis by (simp add: fire_def)
qed

lemma untimed_placed: "untimed r s \<Longrightarrow> untimed r (placed a b rnd s)"
  by (simp add: untimed_def)

lemma untimed_notify: assumes "untimed r s" shows "untimed r (snd (notify a b rnd s))"
proof (cases "showsToast a b rnd s")
  case False
  then show ?thesis using notify_not_shown [OF False] assms untimed_placed by auto
next
  case True
  note p = notify_shown_proj [OF True]
  from assms have "r \<noteq> nextRef s" by (auto simp: untimed_def)
  with assms p(4) [of r] show ?thesis
    by (auto simp: untimed_def p(3) p(15))
qed

lemma untimed_step: assumes "untimed r s" shows "untimed r (step e s)"
proof (cases "notifyCall e")
  case (Some c)
  then show ?thesis
    using step_notifyCall [of e "fst c" "fst (snd c)" "snd (snd c)" s] untimed_notify [OF assms] by simp
next
  case None
  then show ?thesis
    using assms
    by (cases e)
      (simp_all add: untimed_dismiss untimed_fold_dismiss clear_def untimed_fire untimed_pointerEnter
        untimed_pointerLeave untimed_minor untimed_fold_showFrame configure_def)
qed

lemma untimed_run: "untimed r s \<Longrightarrow> untimed r (run es s)"
  by (induction es arbitrary: s) (simp_all add: untimed_step)

text \<open>
  A toast of duration 0 never has a timer of its own: the call that shows it schedules
  none, and whatever happens later its instance holds no timer handle and no auto-dismiss
  callback made for it is pending, so neither the show nor its hover handlers schedule
  one.
\<close>

lemma duration_zero_never_armed:
  assumes "s = run es0 (init b)"
    and "showsToast a1 b1 rnd s"
    and "duration (callOpts a1 b1 rnd s) = Val 0"
  shows "timers (snd (notify a1 b1 rnd s)) = timers s
     \<and> timeoutId (heap (run es (snd (notify a1 b1 rnd s))) (nextRef s)) = None
     \<and> (\<forall>t \<in> set (timers (run es (snd (notify a1 b1 rnd s)))). \<forall>j. task t \<noteq> AutoDismiss (nextRef s) j)"
proof -
  let ?s1 = "snd (notify a1 b1 rnd s)"
  let ?r = "nextRef s"
  note p = notify_shown_proj [OF assms(2)]
  from assms(1) have i0: "inv s" by (simp add: inv_reachable)
  have tm: "timers ?s1 = timers s"
    by (simp add: p(15) assms(3))
  have own: "\<forall>t \<in> set (timers s). owner (task t) < ?r"
    using i0 by (simp add: inv_def timerInv_def okTimer_def)
  have "\<forall>t \<in> set (timers s). \<forall>j. task t \<noteq> AutoDismiss ?r j"
  proof (intro ballI allI notI)
    fix t j assume "t \<in> set (timers s)" and "task t = AutoDismiss ?r j"
    with own show False by force
  qed
  then have u: "untimed ?r ?s1"
    by (simp add: untimed_def p(3) p(7) p(13) p(14) assms(3) tm)
  then have "untimed ?r (run es ?s1)" by (rule untimed_run)
  then have "timeoutId (heap (run es ?s1) ?r) = None
     \<and> (\<forall>t \<in> set (timers (run es ?s1)). \<forall>j. task t \<noteq> AutoDismiss ?r j)"
    by (simp add: untimed_def)
  with tm show ?thesis by blast
qed

section \<open>The timers of a toast\<close>























section \<open>Claims about the merge of options\<close>

text \<open>
  C10. When \<^verbatim>\<open>notify\<close> is called with a bare message string and a secondary options
  record, the message of the secondary record overrides the string whenever that record
  has a message property; the string is the message only when the secondary record omits
  it (or is absent). This is so for the object of line 206 and for the resolved options.
\<close>

theorem string_message_overridden:
  "message (optsBase (Str m) (Some o2)) = (if message o2 = Missing then Val m else message o2)
   \<and> message (resolveOpts cfg clock rnd (optsBase (Str m) (Some o2)))
       = (if message o2 = Missing then Val m else message o2)
   \<and> message (optsBase (Str m) None) = Val m"
  by (cases "message o2")
    (simp_all add: resolveOpts_fields merged_fields overlaid_def assign_def emptyOpts_def)




text \<open>
  C3 fails on the code. \<^verbatim>\<open>notify({message: "x", duration: undefined})\<close> resolves to a
  record whose duration is \<^verbatim>\<open>undefined\<close>: \<^verbatim>\<open>Object.assign\<close> copies the property over the
  default 4000. The hover variable is then not a number and the auto-dismiss timer is due
  at once.
\<close>

theorem undefined_duration_not_populated:
  "duration (opts (heap (run [CallNotify (Opts undefinedDuration) None ''r''] (init True)) 0)) = Undefined
   \<and> remaining (heap (run [CallNotify (Opts undefinedDuration) None ''r''] (init True)) 0) = None
   \<and> timers (run [CallNotify (Opts undefinedDuration) None ''r''] (init True))
       = [\<lparr> handle = 1, due = 0, task = AutoDismiss 0 ''t_0_r'' \<rparr>]"
  by code_simp

section \<open>Claims the code breaks\<close>

text \<open>
  C1 fails on the code. \<^verbatim>\<open>dismiss\<close> leaves the registry entry in place until the removal
  callback runs, so a second \<^verbatim>\<open>dismiss\<close> of the same identifier within the 220 ms finds
  the instance again and schedules a second removal callback; when both have run the
  close callback has been invoked twice.
\<close>

theorem dismiss_twice_closes_twice:
  "map task (timers (run [CallNotify (Opts toastA) None ''r'', CallDismiss ''a''] (init True)))
       = [Removal 0 ''a'']
   \<and> map task (timers (run [CallNotify (Opts toastA) None ''r'', CallDismiss ''a'', CallDismiss ''a'']
         (init True))) = [Removal 0 ''a'', Removal 0 ''a'']
   \<and> closeLog (run [CallNotify (Opts toastA) None ''r'', CallDismiss ''a'', CallDismiss ''a'',
       Tick 220, Fire 2, Fire 3] (init True)) = [User 7, User 7]"
  by code_simp

text \<open>
  C2 fails on the code. Two calls of \<^verbatim>\<open>notify\<close> with the explicit identifier \<open>a\<close> leave
  one registry entry (the second instance) and two attached elements that carry the
  identifier. After \<^verbatim>\<open>dismiss("a")\<close> and its removal callback the registry is empty, the
  element of the first instance is still attached to the container, and the timer of the
  first instance is still pending.
\<close>

theorem same_id_two_elements:
  "TOASTS (run [CallNotify (Opts toastA) None ''r'', CallNotify (Opts toastA) None ''r''] (init True))
       = [(''a'', 1)]
   \<and> map (\<lambda>r. (tid (el (heap (run [CallNotify (Opts toastA) None ''r'',
         CallNotify (Opts toastA) None ''r''] (init True)) r)),
       parentElement (el (heap (run [CallNotify (Opts toastA) None ''r'',
         CallNotify (Opts toastA) None ''r''] (init True)) r)))) [0, 1]
       = [(''a'', Some 0), (''a'', Some 0)]
   \<and> TOASTS (run [CallNotify (Opts toastA) None ''r'', CallNotify (Opts toastA) None ''r'',
         CallDismiss ''a'', Tick 220, Fire 3] (init True)) = []
   \<and> parentElement (el (heap (run [CallNotify (Opts toastA) None ''r'',
         CallNotify (Opts toastA) None ''r'', CallDismiss ''a'', Tick 220, Fire 3] (init True)) 0))
       = Some 0
   \<and> timers (run [CallNotify (Opts toastA) None ''r'', CallNotify (Opts toastA) None ''r'',
         CallDismiss ''a'', Tick 220, Fire 3] (init True))
       = [\<lparr> handle = 1, due = 4000, task = AutoDismiss 0 ''a'' \<rparr>]"
  by code_simp

text \<open>
  C6 fails on the code. The hover handlers stay on the element while it hides. A toast is
  shown at time 0; the pointer enters at 100 (the timer is cleared, 3900 ms remain);
  \<^verbatim>\<open>dismiss\<close> at 100 clears the handle the instance holds, which is no longer pending, and
  schedules the removal; the pointer leaves and the handler starts a new timer of
  3900 ms. The removal runs at 320. The timer of the removed toast is still pending then,
  and it fires at 4000.
\<close>

theorem hover_rearms_timer_while_hiding:
  "TOASTS (run [CallNotify (Opts toastA) None ''r'', Tick 100, MouseEnter 0, CallDismiss ''a'',
         MouseLeave 0, Tick 220, Fire 2] (init True)) = []
   \<and> parentElement (el (heap (run [CallNotify (Opts toastA) None ''r'', Tick 100, MouseEnter 0,
         CallDismiss ''a'', MouseLeave 0, Tick 220, Fire 2] (init True)) 0)) = None
   \<and> timers (run [CallNotify (Opts toastA) None ''r'', Tick 100, MouseEnter 0, CallDismiss ''a'',
         MouseLeave 0, Tick 220, Fire 2] (init True))
       = [\<lparr> handle = 3, due = 4000, task = AutoDismiss 0 ''a'' \<rparr>]
   \<and> now (run [CallNotify (Opts toastA) None ''r'', Tick 100, MouseEnter 0, CallDismiss ''a'',
         MouseLeave 0, Tick 220, Fire 2, Tick 3680] (init True)) = 4000
   \<and> timers (run [CallNotify (Opts toastA) None ''r'', Tick 100, MouseEnter 0, CallDismiss ''a'',
         MouseLeave 0, Tick 220, Fire 2, Tick 3680, Fire 3] (init True)) = []"
  by code_simp

section \<open>Claims about showing a toast\<close>

text \<open>
  C7. In every state the module can reach on a page (a rendering surface is available),
  a call of \<^verbatim>\<open>notify\<close> whose renderer, if any, does not throw returns an identifier, the
  identifier is not empty, and right after the call the registry has exactly one entry
  under it.
\<close>

theorem notify_returns_registered_id:
  assumes "s = run es (init b)" and "browser s" and "\<not> rendererThrows (callOpts a1 b1 rnd s)"
  shows "\<exists>i. fst (notify a1 b1 rnd s) = Returned (Some i) \<and> i \<noteq> []
     \<and> length (filter (\<lambda>p. fst p = i) (TOASTS (snd (notify a1 b1 rnd s)))) = 1"
proof -
  from assms have sh: "showsToast a1 b1 rnd s" by (simp add: showsToast_def)
  from assms(1) have "inv s" by (simp add: inv_reachable)
  then have d: "distinct (map fst (TOASTS s))" by (simp add: inv_def regInv_def)
  have "idStr (id_opt (callOpts a1 b1 rnd s)) \<noteq> []"
    by (simp add: callOpts_def resolveOpts_id_nonempty)
  with notify_shown_proj(1,2) [OF sh] one_entry_after_update [OF d] show ?thesis by simp
qed

theorem notify_returns_registered_id_witness:
  "browser (run [] (init True)) \<and> \<not> rendererThrows (callOpts (Str ''x'') None ''r'' (run [] (init True)))
   \<and> (\<exists>i. fst (notify (Str ''x'') None ''r'' (run [] (init True))) = Returned (Some i) \<and> i \<noteq> []
     \<and> length (filter (\<lambda>p. fst p = i) (TOASTS (snd (notify (Str ''x'') None ''r'' (run [] (init True)))))) = 1)"
proof -
  have b: "browser (run [] (init True))" by (simp add: init_def)
  have r: "\<not> rendererThrows (callOpts (Str ''x'') None ''r'' (run [] (init True)))"
    by (simp add: rendererThrows_def callOpts_def resolveOpts_fields merged_fields overlaid_def
        init_def emptyOpts_def assign_def DEFAULTS_def)
  from notify_returns_registered_id [OF refl b r] b r show ?thesis by blast
qed

text \<open>
  C8. Take a call of \<^verbatim>\<open>notify\<close> that shows a toast, any events after it, and a second
  call that shows a toast and resolves to the same position and the same container class
  (an absent class counting as the empty one, as the parameter default makes it). The
  element of the second toast is attached to the very container the first was attached
  to. And the key under which a container is registered determines the position and the
  class: distinct pairs never share a key.
\<close>

theorem same_container_reused:
  assumes "showsToast a1 b1 rnd1 s"
    and "s' = run es (snd (notify a1 b1 rnd1 s))"
    and "showsToast a2 b2 rnd2 s'"
    and "position (callOpts a2 b2 rnd2 s') = position (callOpts a1 b1 rnd1 s)"
    and "classArg (containerClass (callOpts a2 b2 rnd2 s')) = classArg (containerClass (callOpts a1 b1 rnd1 s))"
  shows "parentElement (el (heap (snd (notify a2 b2 rnd2 s')) (nextRef s')))
       = parentElement (el (heap (snd (notify a1 b1 rnd1 s)) (nextRef s)))
     \<and> parentElement (el (heap (snd (notify a1 b1 rnd1 s)) (nextRef s))) \<noteq> None
     \<and> (\<forall>p c p' c'. p \<noteq> Missing \<and> p' \<noteq> Missing \<and> containerKey p c = containerKey p' c'
           \<longrightarrow> p = p' \<and> c = c')"
proof -
  let ?o1 = "callOpts a1 b1 rnd1 s"
  let ?o2 = "callOpts a2 b2 rnd2 s'"
  let ?s1 = "if truthyB (injectStyles ?o1) then injectDefaultStyles s else s"
  let ?s2 = "if truthyB (injectStyles ?o2) then injectDefaultStyles s' else s'"
  let ?key = "containerKey (position ?o1) (classArg (containerClass ?o1))"
  note p1 = notify_shown_proj [OF assms(1)]
  note p2 = notify_shown_proj [OF assms(3)]
  from assms(1) have b1: "browser ?s1" by (simp add: showsToast_def)
  from assms(3) have b2: "browser ?s2" by (simp add: showsToast_def)
  from p1(9,10) obtain k where
    k: "parentElement (el (heap (snd (notify a1 b1 rnd1 s)) (nextRef s))) = Some k"
       "fst (containerFor (position ?o1) (containerClass ?o1) ?s1) = Some k"
    by (cases "parentElement (el (heap (snd (notify a1 b1 rnd1 s)) (nextRef s)))") auto
  have "map_of (CONTAINERS (placed a1 b1 rnd1 s)) ?key = Some k"
    using containerFor_registered [OF b1, of "position ?o1" "containerClass ?o1"] k(2)
    by (simp add: placed_def)
  then have "map_of (CONTAINERS (snd (notify a1 b1 rnd1 s))) ?key = Some k"
    by (simp add: p1(11))
  then have "map_of (CONTAINERS s') ?key = Some k"
    unfolding assms(2) by (rule containers_run)
  then have "map_of (CONTAINERS ?s2) (containerKey (position ?o2) (classArg (containerClass ?o2))) = Some k"
    by (simp add: assms(4,5))
  from containerFor_found [OF b2 this] have "fst (containerFor (position ?o2) (containerClass ?o2) ?s2) = Some k" .
  with p2(10) k(1) containerKey_inj show ?thesis by auto
qed

theorem same_container_reused_witness:
  "parentElement (el (heap (snd (notify (Str ''x'') None ''q''
        (run [Tick 5] (snd (notify (Opts toastA) None ''r'' (init True))))))
      (nextRef (run [Tick 5] (snd (notify (Opts toastA) None ''r'' (init True)))))))
    = parentElement (el (heap (snd (notify (Opts toastA) None ''r'' (init True))) (nextRef (init True))))
   \<and> parentElement (el (heap (snd (notify (Opts toastA) None ''r'' (init True))) (nextRef (init True)))) = Some 0"
proof -
  let ?s = "init True"
  let ?s' = "run [Tick 5] (snd (notify (Opts toastA) None ''r'' ?s))"
  have 1: "showsToast (Opts toastA) None ''r'' ?s"
    by (rule showsToast_plain) (simp_all add: init_def toastA_def emptyOpts_def)
  have g: "globalConfig ?s' = emptyOpts"
    using notify_shown_proj(19) [OF 1] by (simp add: init_def)
  have "browser ?s'"
    by (simp add: browser_run del: run.simps) (use extends_notify [of ?s] in \<open>simp add: extends_def init_def\<close>)
  then have 3: "showsToast (Str ''x'') None ''q'' ?s'"
    using g by (intro showsToast_plain) (simp_all add: emptyOpts_def assign_def)
  have 4: "position (callOpts (Str ''x'') None ''q'' ?s') = position (callOpts (Opts toastA) None ''r'' ?s)"
    using g by (simp add: callOpts_fields overlaid_def init_def toastA_def emptyOpts_def assign_def del: run.simps)
  have 5: "classArg (containerClass (callOpts (Str ''x'') None ''q'' ?s'))
      = classArg (containerClass (callOpts (Opts toastA) None ''r'' ?s))"
    using g by (simp add: callOpts_fields overlaid_def init_def toastA_def emptyOpts_def assign_def del: run.simps)
  have 6: "parentElement (el (heap (snd (notify (Opts toastA) None ''r'' (init True))) (nextRef (init True)))) = Some 0"
    by code_simp
  from same_container_reused [OF 1 refl 3 4 5] 6 show ?thesis by simp
qed

section \<open>Claims about the timers\<close>




text \<open>
  C4 fails on the code. A toast of duration 0 is shown under an identifier an earlier
  toast still has: \<^verbatim>\<open>notify\<close> stores it under the identifier without looking for the
  earlier entry (line 217), and the timer of the earlier toast, due after a second,
  dismisses the identifier, which by then is registered to the sticky toast. No
  \<^verbatim>\<open>dismiss\<close> or \<^verbatim>\<open>clear\<close> is called, and the sticky toast is hidden and 220 ms later
  removed from the registry and the page.
\<close>

theorem sticky_toast_dismissed_by_earlier_timer:
  "duration (opts (heap (run [CallNotify (Opts secondA) None ''r'', CallNotify (Opts stickyA) None ''r'']
       (init True)) 1)) = Val 0
   \<and> TOASTS (run [CallNotify (Opts secondA) None ''r'', CallNotify (Opts stickyA) None ''r''] (init True))
       = [(''a'', 1)]
   \<and> timers (run [CallNotify (Opts secondA) None ''r'', CallNotify (Opts stickyA) None ''r''] (init True))
       = [\<lparr> handle = 1, due = 1000, task = AutoDismiss 0 ''a'' \<rparr>]
   \<and> hide (el (heap (run [CallNotify (Opts secondA) None ''r'', CallNotify (Opts stickyA) None ''r'',
         Tick 1000, Fire 1] (init True)) 1)) = True
   \<and> TOASTS (run [CallNotify (Opts secondA) None ''r'', CallNotify (Opts stickyA) None ''r'',
         Tick 1000, Fire 1, Tick 220, Fire 2] (init True)) = []
   \<and> parentElement (el (heap (run [CallNotify (Opts secondA) None ''r'', CallNotify (Opts stickyA) None ''r'',
         Tick 1000, Fire 1, Tick 220, Fire 2] (init True)) 1)) = None"
  by code_simp

end
